theory Spec2Isabelle
  imports Main "HOL-Library.Char_ord" "HOL-Library.List_Lexorder"
begin

section \<open>Exceptions and outcomes\<close>

text \<open>
  The launcher is a command-line shell around a database, a file store, a chat
  client and a set of loadable modules. Every command is modelled as a function from
  the world before the call to an outcome and the world after it.

  Python exceptions are values. The launcher uses two kinds of handler: \<open>except
  Exception\<close>, which lets a \<open>BaseException\<close> such as \<open>KeyboardInterrupt\<close> through, and
  the bare \<open>except:\<close>, which catches everything. \<open>Interrupt\<close> stands for the
  exceptions that are not instances of \<open>Exception\<close>.
\<close>

datatype exc =
    Abort
  | ValueError string
  | AttributeError string
  | UndefinedTableError string
  | FileNotFoundError string
  | OSError string
  | Failure string
  | Interrupt string

fun is_Exception :: "exc \<Rightarrow> bool" where
  "is_Exception (Interrupt _) = False"
| "is_Exception _ = True"

datatype outcome = Returned | Raised exc

section \<open>Strings\<close>

definition nl :: string where
  "nl = [CHR 0x0A]"

text \<open>\<open>s.startswith(p)\<close>.\<close>

definition startswith :: "string \<Rightarrow> string \<Rightarrow> bool" where
  "startswith s p = (take (length p) s = p)"

text \<open>
  \<open>s.replace(old, new)\<close>: every non-overlapping occurrence of \<open>old\<close>, scanning from the
  left; with an empty \<open>old\<close>, \<open>new\<close> is put around every character.
\<close>

function str_replace :: "string \<Rightarrow> string \<Rightarrow> string \<Rightarrow> string" where
  "str_replace old new [] = (if old = [] then new else [])"
| "str_replace old new (c # cs) =
     (if old = [] then new @ c # str_replace old new cs
      else if take (length old) (c # cs) = old
        then new @ str_replace old new (drop (length old) (c # cs))
      else c # str_replace old new cs)"
  by pat_completeness auto
termination
  by (relation "measure (\<lambda>(old, new, s). length s)") auto

text \<open>\<open>s.rfind(c)\<close> for a single character: the last index of \<open>c\<close>, or \<open>-1\<close>.\<close>

definition rfind :: "string \<Rightarrow> char \<Rightarrow> int" where
  "rfind s c =
     (if c \<in> set s
      then int (length s) - 1 - int (length (takeWhile (\<lambda>x. x \<noteq> c) (rev s)))
      else - 1)"

text \<open>\<open>s.split(c)\<close> for a single-character separator.\<close>

fun split_sep :: "char \<Rightarrow> string \<Rightarrow> string list" where
  "split_sep c [] = [[]]"
| "split_sep c (x # xs) =
     (if x = c then [] # split_sep c xs
      else (case split_sep c xs of
              [] \<Rightarrow> [[x]]
            | y # ys \<Rightarrow> (x # y) # ys))"

text \<open>\<open>sep.join(xs)\<close>.\<close>

fun join :: "string \<Rightarrow> string list \<Rightarrow> string" where
  "join sep [] = []"
| "join sep [x] = x"
| "join sep (x # y # ys) = x @ sep @ join sep (y # ys)"

section \<open>Paths\<close>

text \<open>
  \<open>pathlib\<close>'s pure POSIX paths, as far as \<open>dropdb\<close> uses them. A path is its root
  (\<open>''''\<close>, \<open>''/''\<close> or \<open>''//''\<close>) and its parts; as in \<open>pathlib\<close>, the root is also the first
  part of an anchored path. The functions follow \<open>pathlib\<close>'s \<open>splitroot\<close>, \<open>parse_parts\<close>,
  \<open>join_parsed_parts\<close>, \<open>name\<close>, \<open>suffix\<close>, \<open>with_suffix\<close>, \<open>with_name\<close> and \<open>__str__\<close>.
\<close>

datatype path = Path (root: string) (parts: "string list")

definition splitroot :: "string \<Rightarrow> string \<times> string" where
  "splitroot part =
     (if part \<noteq> [] \<and> hd part = CHR ''/''
      then (let stripped_part = dropWhile (\<lambda>x. x = CHR ''/'') part
            in if length part - length stripped_part = 2
               then (''//'', stripped_part)
               else (''/'', stripped_part))
      else ('''', part))"

definition parse_parts :: "string \<Rightarrow> path" where
  "parse_parts part =
     (if part = [] then Path '''' []
      else (let (rt, rel) = splitroot part;
                parsed = filter (\<lambda>x. x \<noteq> [] \<and> x \<noteq> ''.'') (split_sep CHR ''/'' rel)
            in Path rt (if rt \<noteq> [] then rt # parsed else parsed)))"

definition joinpath :: "path \<Rightarrow> string \<Rightarrow> path" where
  "joinpath p arg =
     (let p2 = parse_parts arg
      in if root p2 \<noteq> [] then p2
         else Path (root p) (parts p @ parts p2))"

definition path_name :: "path \<Rightarrow> string" where
  "path_name p =
     (if length (parts p) = (if root p \<noteq> [] then 1 else 0) then []
      else last (parts p))"

definition path_suffix :: "path \<Rightarrow> string" where
  "path_suffix p =
     (let name = path_name p; i = rfind name CHR ''.''
      in if 0 < i \<and> i < int (length name) - 1 then drop (nat i) name else [])"

definition with_suffix :: "path \<Rightarrow> string \<Rightarrow> exc + path" where
  "with_suffix p suffix =
     (if CHR ''/'' \<in> set suffix then Inl (ValueError ''Invalid suffix'')
      else if (suffix \<noteq> [] \<and> \<not> startswith suffix ''.'') \<or> suffix = ''.''
        then Inl (ValueError ''Invalid suffix'')
      else (let name = path_name p
            in if name = [] then Inl (ValueError ''has an empty name'')
               else (let old_suffix = path_suffix p;
                         name' = (if old_suffix = [] then name @ suffix
                                  else take (length name - length old_suffix) name @ suffix)
                     in Inr (Path (root p) (butlast (parts p) @ [name'])))))"

definition with_name :: "path \<Rightarrow> string \<Rightarrow> exc + path" where
  "with_name p name =
     (if path_name p = [] then Inl (ValueError ''has an empty name'')
      else (let p2 = parse_parts name
            in if name = [] \<or> last name = CHR ''/'' \<or> root p2 \<noteq> [] \<or> length (parts p2) \<noteq> 1
               then Inl (ValueError ''Invalid name'')
               else Inr (Path (root p) (butlast (parts p) @ [name]))))"

definition str_path :: "path \<Rightarrow> string" where
  "str_path p =
     (let s = (if root p \<noteq> [] then root p @ join ''/'' (tl (parts p))
               else join ''/'' (parts p))
      in if s = [] then ''.'' else s)"

text \<open>
  The two files of a table in \<open>dropdb\<close>:
  \<open>migration = Path('migrations').joinpath(name).with_suffix('.json')\<close> and
  \<open>current = migration.with_name('current-' + migration.name)\<close>.
\<close>

definition migration_file :: "string \<Rightarrow> exc + path" where
  "migration_file name = with_suffix (joinpath (parse_parts ''migrations'') name) ''.json''"

definition current_file :: "path \<Rightarrow> exc + path" where
  "current_file migration = with_name migration (''current-'' @ path_name migration)"

section \<open>The world\<close>

text \<open>
  What the commands can change: the files of the migration store (the directory entries,
  and which of them are symbolic links whose target is missing) and the tables of the
  live database (a table name mapped to its rows). A table's \<open>create\<close> coroutine and
  an import routine are actions on this storage: they return the exception they raise,
  if any, and the storage they leave behind.
\<close>

type_synonym database = "string \<rightharpoonup> string list"

record storage =
  files :: "path set"
  dangling :: "path set"
  db :: database

type_synonym action = "storage \<Rightarrow> exc option \<times> storage"

text \<open>A table class of \<open>cogs.utils.db\<close>: \<open>__tablename__\<close>, \<open>__module__\<close> and \<open>create(verbose=...)\<close>.\<close>

record table =
  tablename :: string
  table_module :: string
  create :: "bool \<Rightarrow> action"

text \<open>A routine of \<open>data_migrators\<close>: its \<open>__name__\<close> and what a call \<open>migrator(pool, client)\<close> does.\<close>

record migrator =
  fname :: string
  body :: action

text \<open>
  Every call that leaves the launcher is recorded, in order, when it is made.
\<close>

datatype event =
    Echo string bool
  | Confirm string
  | TableCreatePool
  | ImportModule string
  | TableCreate string bool
  | PgConnect
  | PgExecute string
  | PgClose
  | Exists path
  | Unlink path
  | PgCreatePool
  | ClientStart
  | ClientLogout
  | Invoke string

record world =
  trace :: "event list"
  store :: storage
  sys_modules :: "string list"
  all_tables :: "table list"

text \<open>
  What the launcher does not decide: the operator's answer, the faults of the database
  server, of the file system and of the chat service, the tables each extension module
  declares, and the text of a traceback.
\<close>

record env =
  format_exc :: "exc \<Rightarrow> string"
  confirm_answer :: bool
  initial_extensions :: "string list"
  import_fault :: "string \<Rightarrow> exc option"
  module_tables :: "string \<Rightarrow> table list"
  table_pool_fault :: "exc option"
  connect_fault :: "exc option"
  execute_fault :: "exc option"
  close_fault :: "exc option"
  stat_fault :: "path \<Rightarrow> exc option"
  unlink_fault :: "path \<Rightarrow> exc option"
  create_pool_fault :: "exc option"
  client_fault :: "exc option"
  client_user :: string
  client_id :: string

definition emit :: "event \<Rightarrow> world \<Rightarrow> world" where
  "emit e w = w\<lparr>trace := trace w @ [e]\<rparr>"

text \<open>\<open>click.echo(message, err=err)\<close>.\<close>

definition echo :: "string \<Rightarrow> bool \<Rightarrow> world \<Rightarrow> world" where
  "echo message err w = emit (Echo message err) w"

definition perform :: "action \<Rightarrow> world \<Rightarrow> exc option \<times> world" where
  "perform a w = (case a (store w) of (r, s) \<Rightarrow> (r, w\<lparr>store := s\<rparr>))"

section \<open>initdb\<close>

text \<open>
  \<open>importlib.import_module(ext)\<close>: a module already in \<open>sys.modules\<close> is not executed
  again; a module that loads registers its tables, which \<open>db.Table.all_tables()\<close> then
  lists.
\<close>

definition import_module :: "env \<Rightarrow> string \<Rightarrow> world \<Rightarrow> exc option \<times> world" where
  "import_module env ext w =
     (let w1 = emit (ImportModule ext) w
      in if ext \<in> set (sys_modules w1) then (None, w1)
         else (case import_fault env ext of
                 Some e \<Rightarrow> (Some e, w1)
               | None \<Rightarrow> (None, w1\<lparr>sys_modules := sys_modules w1 @ [ext],
                                   all_tables := all_tables w1 @ module_tables env ext\<rparr>)))"

text \<open>The loop \<open>for ext in extension\<close> (lines 91-95).\<close>

fun load_extensions :: "env \<Rightarrow> string list \<Rightarrow> world \<Rightarrow> outcome \<times> world" where
  "load_extensions env [] w = (Returned, w)"
| "load_extensions env (ext # exts) w =
     (case import_module env ext w of
        (None, w1) \<Rightarrow> load_extensions env exts w1
      | (Some e, w1) \<Rightarrow>
          if is_Exception e
          then load_extensions env exts
                 (echo (''Could not load '' @ ext @ ''.'' @ nl @ format_exc env e) True w1)
          else (Raised e, w1))"

text \<open>The loop \<open>for table in db.Table.all_tables()\<close> (lines 97-103).\<close>

fun create_tables :: "env \<Rightarrow> bool \<Rightarrow> table list \<Rightarrow> world \<Rightarrow> outcome \<times> world" where
  "create_tables env quiet [] w = (Returned, w)"
| "create_tables env quiet (t # ts) w =
     (case perform (create t (\<not> quiet)) (emit (TableCreate (tablename t) (\<not> quiet)) w) of
        (None, w1) \<Rightarrow>
          create_tables env quiet ts
            (echo (''['' @ table_module t @ ''] Processing creation or migration for ''
                   @ tablename t @ '' complete.'') False w1)
      | (Some e, w1) \<Rightarrow>
          if is_Exception e
          then create_tables env quiet ts
                 (echo (''Could not create '' @ tablename t @ ''.'' @ nl @ format_exc env e) True w1)
          else (Raised e, w1))"

definition initdb :: "env \<Rightarrow> string list \<Rightarrow> bool \<Rightarrow> world \<Rightarrow> outcome \<times> world" where
  "initdb env extension quiet w =
     (let w1 = emit TableCreatePool w
      in case table_pool_fault env of
           Some e \<Rightarrow>
             if is_Exception e
             then (Returned,
                   echo (''Could not create PostgreSQL connection pool.'' @ nl @ format_exc env e)
                     True w1)
             else (Raised e, w1)
         | None \<Rightarrow>
             (case load_extensions env
                     (if extension = [] then initial_extensions env else extension) w1 of
                (Raised e, w2) \<Rightarrow> (Raised e, w2)
              | (Returned, w2) \<Rightarrow> create_tables env quiet (all_tables w2) w2))"

section \<open>dropdb\<close>

text \<open>
  \<open>DROP TABLE name;\<close> on the server: besides any other fault, the statement fails when
  the table does not exist, since it has no \<open>IF EXISTS\<close>.
\<close>

definition drop_table :: "env \<Rightarrow> string \<Rightarrow> database \<Rightarrow> exc + database" where
  "drop_table env name d =
     (case execute_fault env of
        Some e \<Rightarrow> Inl e
      | None \<Rightarrow> if d name = None then Inl (UndefinedTableError name)
                else Inr (d(name := None)))"

definition remove_database :: "env \<Rightarrow> string \<Rightarrow> world \<Rightarrow> outcome \<times> world" where
  "remove_database env name w =
     (let w1 = emit PgConnect w
      in case connect_fault env of
           Some e \<Rightarrow> (Returned, w1)
         | None \<Rightarrow>
             (let w2 = emit (PgExecute (''DROP TABLE '' @ name @ '';'')) w1
              in case drop_table env name (db (store w2)) of
                   Inl e \<Rightarrow> (Raised e, w2)
                 | Inr d \<Rightarrow>
                     (let w3 = emit PgClose (w2\<lparr>store := (store w2)\<lparr>db := d\<rparr>\<rparr>)
                      in case close_fault env of
                           Some e \<Rightarrow> (Raised e, w3)
                         | None \<Rightarrow> (Returned, w3))))"

text \<open>
  \<open>p.exists()\<close>: \<open>pathlib\<close> calls \<open>stat\<close>, answers \<open>False\<close> when the entry is missing or
  is a symbolic link whose target is missing, and raises every other \<open>OSError\<close> of
  \<open>stat\<close>, such as the one for a name that is too long or for a directory that may not
  be searched.
\<close>

definition path_exists :: "env \<Rightarrow> path \<Rightarrow> world \<Rightarrow> (exc + bool) \<times> world" where
  "path_exists env p w =
     (let w1 = emit (Exists p) w
      in case stat_fault env p of
           Some e \<Rightarrow> (Inl e, w1)
         | None \<Rightarrow> (Inr (p \<in> files (store w1) \<and> p \<notin> dangling (store w1)), w1))"

text \<open>
  Lines 138-139: \<open>if not migration.exists() or not current.exists()\<close>, outside any \<open>try\<close>.
  The \<open>or\<close> asks for the second file only when the first exists.
\<close>

definition check_files :: "env \<Rightarrow> path \<Rightarrow> path \<Rightarrow> world \<Rightarrow> outcome \<times> world" where
  "check_files env migration current w =
     (case path_exists env migration w of
        (Inl e, w1) \<Rightarrow> (Raised e, w1)
      | (Inr False, w1) \<Rightarrow>
          (Returned, echo ''warning: could not find the appropriate files.'' False w1)
      | (Inr True, w1) \<Rightarrow>
          (case path_exists env current w1 of
             (Inl e, w2) \<Rightarrow> (Raised e, w2)
           | (Inr False, w2) \<Rightarrow>
               (Returned, echo ''warning: could not find the appropriate files.'' False w2)
           | (Inr True, w2) \<Rightarrow> (Returned, w2)))"

text \<open>\<open>p.unlink()\<close> removes the entry, also that of a link without target.\<close>

definition unlink :: "env \<Rightarrow> path \<Rightarrow> world \<Rightarrow> exc option \<times> world" where
  "unlink env p w =
     (let w1 = emit (Unlink p) w
      in case unlink_fault env p of
           Some e \<Rightarrow> (Some e, w1)
         | None \<Rightarrow>
             if p \<in> files (store w1)
             then (None, w1\<lparr>store := (store w1)\<lparr>files := files (store w1) - {p},
                                                  dangling := dangling (store w1) - {p}\<rparr>\<rparr>)
             else (Some (FileNotFoundError (str_path p)), w1))"

text \<open>\<open>try: p.unlink()\<close> with the bare \<open>except:\<close> that prints a warning (lines 141-149).\<close>

definition try_unlink :: "env \<Rightarrow> path \<Rightarrow> string \<Rightarrow> world \<Rightarrow> world" where
  "try_unlink env p warning w =
     (case unlink env p w of
        (None, w1) \<Rightarrow> w1
      | (Some e, w1) \<Rightarrow> echo warning False w1)"

definition dropdb :: "env \<Rightarrow> string \<Rightarrow> bool \<Rightarrow> world \<Rightarrow> outcome \<times> world" where
  "dropdb env name quiet w =
     (case migration_file name of
        Inl e \<Rightarrow> (Raised e, w)
      | Inr migration \<Rightarrow>
     (case current_file migration of
        Inl e \<Rightarrow> (Raised e, w)
      | Inr current \<Rightarrow>
     (let w1 = emit (Confirm ''do you really want to do this?'') w
      in if \<not> confirm_answer env then (Raised Abort, w1)
         else
     (case remove_database env name w1 of
        (Raised e, w2) \<Rightarrow>
          if is_Exception e
          then (Returned,
                echo (''could not delete the database'' @ nl @ format_exc env e) True w2)
          else (Raised e, w2)
      | (Returned, w2) \<Rightarrow>
     (case check_files env migration current w2 of
        (Raised e, w3) \<Rightarrow> (Raised e, w3)
      | (Returned, w3) \<Rightarrow>
     (let w4 = try_unlink env migration ''warning: could not delete migration file'' w3;
          w5 = try_unlink env current ''warning: could not delete current migration file'' w4
      in (Returned, echo (''successfully removed '' @ name @ '' database'') False w5)))))))"

section \<open>convertjson\<close>

text \<open>
  The module \<open>data_migrators\<close> is given by its declarations, name and value, in the order
  the module body makes them; a later declaration of a name replaces the value of an
  earlier one. \<open>dir(module)\<close> lists the names sorted, \<open>getattr\<close> looks one up.
\<close>

type_synonym pymodule = "(string \<times> migrator) list"

definition py_dir :: "pymodule \<Rightarrow> string list" where
  "py_dir m = sort (remdups (map fst m))"

definition py_getattr :: "pymodule \<Rightarrow> string \<Rightarrow> migrator option" where
  "py_getattr m attr = map_of (rev m) attr"

text \<open>
  The comprehension of lines 177-178 over \<open>dir(data_migrators)\<close>; a failing \<open>getattr\<close>
  would raise \<open>AttributeError\<close>.
\<close>

fun all_units :: "pymodule \<Rightarrow> string list \<Rightarrow> exc + (migrator \<times> string) list" where
  "all_units m [] = Inr []"
| "all_units m (attr # attrs) =
     (if startswith attr ''migrate_''
      then (case py_getattr m attr of
              None \<Rightarrow> Inl (AttributeError attr)
            | Some f \<Rightarrow>
                (case all_units m attrs of
                   Inl e \<Rightarrow> Inl e
                 | Inr r \<Rightarrow> Inr ((f, str_replace ''migrate_'' [] attr) # r)))
      else all_units m attrs)"

text \<open>
  The loop of lines 180-188 over the requested names, with the list built so far; \<open>Inl cog\<close>
  is the name whose \<open>getattr\<close> raised \<open>AttributeError\<close>.
\<close>

fun named_units ::
  "pymodule \<Rightarrow> (migrator \<times> string) list \<Rightarrow> string list \<Rightarrow> string + (migrator \<times> string) list"
where
  "named_units m to_run [] = Inr to_run"
| "named_units m to_run (cog # cogs) =
     (case py_getattr m (''migrate_'' @ cog) of
        None \<Rightarrow> Inl cog
      | Some elem \<Rightarrow> named_units m (to_run @ [(elem, cog)]) cogs)"

text \<open>
  \<open>client.start(config.token)\<close> with the \<open>on_ready\<close> handler of lines 201-204: once the
  service reports ready, the handler prints the identity and logs out, which ends
  \<open>start\<close>.
\<close>

definition client_start :: "env \<Rightarrow> world \<Rightarrow> outcome \<times> world" where
  "client_start env w =
     (let w1 = emit ClientStart w
      in case client_fault env of
           Some e \<Rightarrow> (Raised e, w1)
         | None \<Rightarrow>
             (Returned,
              emit ClientLogout
                (echo (''successfully booted up bot '' @ client_user env
                       @ '' (ID: '' @ client_id env @ '')'') False w1)))"

text \<open>
  The loop \<open>for migrator, _ in to_run\<close> (lines 211-218). It is left in one of three
  ways: it runs to its end, the handler's \<open>return\<close> leaves the command, or an exception
  that is not an \<open>Exception\<close> goes through the handler.
\<close>

datatype loop_exit = Completed | ReturnedEarly | Propagated exc

fun run_migrators :: "env \<Rightarrow> (migrator \<times> string) list \<Rightarrow> world \<Rightarrow> loop_exit \<times> world" where
  "run_migrators env [] w = (Completed, w)"
| "run_migrators env ((f, cog) # rest) w =
     (case perform (body f) (emit (Invoke (fname f)) w) of
        (None, w1) \<Rightarrow>
          run_migrators env rest
            (echo (''migrator '' @ fname f @ '' completed successfully'') False w1)
      | (Some e, w1) \<Rightarrow>
          if is_Exception e
          then (ReturnedEarly,
                echo (''migrator '' @ fname f @ '' has failed, terminating'' @ nl
                      @ format_exc env e) True w1)
          else (Propagated e, w1))"

fun command_outcome :: "loop_exit \<Rightarrow> outcome" where
  "command_outcome Completed = Returned"
| "command_outcome ReturnedEarly = Returned"
| "command_outcome (Propagated e) = Raised e"

text \<open>Line 208: \<open>extensions = ['cogs.' + name for _, name in to_run]\<close>.\<close>

definition extensions :: "(migrator \<times> string) list \<Rightarrow> string list" where
  "extensions to_run = map (\<lambda>(f, name). ''cogs.'' @ name) to_run"

text \<open>
  Everything of \<open>convertjson\<close> after \<open>to_run\<close> is known (lines 190-218): the pool, the
  client, \<open>ctx.invoke(initdb, extension=extensions)\<close> with \<open>quiet\<close> at its default, and
  the routines.
\<close>

definition run_import :: "env \<Rightarrow> (migrator \<times> string) list \<Rightarrow> world \<Rightarrow> outcome \<times> world" where
  "run_import env to_run w =
     (let w1 = emit PgCreatePool w
      in case create_pool_fault env of
           Some e \<Rightarrow>
             if is_Exception e
             then (Returned,
                   echo (''Could not create PostgreSQL connection pool.'' @ nl @ format_exc env e)
                     True w1)
             else (Raised e, w1)
         | None \<Rightarrow>
             (case client_start env w1 of
                (Raised e, w2) \<Rightarrow> (Raised e, w2)
              | (Returned, w2) \<Rightarrow>
                  (case initdb env (extensions to_run) False w2 of
                     (Raised e, w3) \<Rightarrow> (Raised e, w3)
                   | (Returned, w3) \<Rightarrow>
                       (case run_migrators env to_run w3 of
                          (x, w4) \<Rightarrow> (command_outcome x, w4)))))"

text \<open>
  Lines 176-188: the routines to run. \<open>Inl (Inl e)\<close> is an exception of the
  comprehension, \<open>Inl (Inr cog)\<close> the requested name that is not in the module.
\<close>

definition to_run_for :: "pymodule \<Rightarrow> string list \<Rightarrow> (exc + string) + (migrator \<times> string) list"
where
  "to_run_for data_migrators cogs =
     (if ''all'' \<in> set cogs
      then (case all_units data_migrators (py_dir data_migrators) of
              Inl e \<Rightarrow> Inl (Inl e)
            | Inr to_run \<Rightarrow> Inr to_run)
      else (case named_units data_migrators [] cogs of
              Inl cog \<Rightarrow> Inl (Inr cog)
            | Inr to_run \<Rightarrow> Inr to_run))"

definition convertjson :: "env \<Rightarrow> pymodule \<Rightarrow> string list \<Rightarrow> world \<Rightarrow> outcome \<times> world" where
  "convertjson env data_migrators cogs w =
     (case to_run_for data_migrators cogs of
        Inl (Inl e) \<Rightarrow> (Raised e, w)
      | Inl (Inr cog) \<Rightarrow> (Returned, echo (''invalid cog name given, '' @ cog @ ''.'') True w)
      | Inr to_run \<Rightarrow> run_import env to_run w)"

section \<open>Reading a trace\<close>

text \<open>The events a command added to the trace of the world it started in.\<close>

definition new_events :: "world \<Rightarrow> world \<Rightarrow> event list" where
  "new_events w w' = drop (length (trace w)) (trace w')"

text \<open>The routines invoked, the tables whose creation was attempted, the lines printed.\<close>

fun invoked :: "event list \<Rightarrow> string list" where
  "invoked [] = []"
| "invoked (Invoke n # es) = n # invoked es"
| "invoked (e # es) = invoked es"

fun attempted :: "event list \<Rightarrow> string list" where
  "attempted [] = []"
| "attempted (TableCreate n v # es) = n # attempted es"
| "attempted (e # es) = attempted es"

fun is_destructive :: "event \<Rightarrow> bool" where
  "is_destructive (PgExecute q) = True"
| "is_destructive (Unlink p) = True"
| "is_destructive e = False"

text \<open>The phases of an import run, and the phase an event belongs to.\<close>

datatype phase = Connect | OpenSession | CloseSession | EnsureSchema | RunUnits

fun phase_of :: "event \<Rightarrow> phase option" where
  "phase_of PgCreatePool = Some Connect"
| "phase_of ClientStart = Some OpenSession"
| "phase_of ClientLogout = Some CloseSession"
| "phase_of TableCreatePool = Some EnsureSchema"
| "phase_of (ImportModule ext) = Some EnsureSchema"
| "phase_of (TableCreate n v) = Some EnsureSchema"
| "phase_of (Invoke n) = Some RunUnits"
| "phase_of e = None"

definition phases :: "event list \<Rightarrow> phase list" where
  "phases es = remdups_adj (List.map_filter phase_of es)"

section \<open>Sample inputs\<close>

text \<open>
  An environment without faults in which the operator confirms, an empty world, and
  routines and tables that succeed or fail.
\<close>

definition calm :: env where
  "calm = \<lparr>format_exc = (\<lambda>e. ''Traceback''), confirm_answer = True, initial_extensions = [],
     import_fault = (\<lambda>ext. None), module_tables = (\<lambda>ext. []), table_pool_fault = None,
     connect_fault = None, execute_fault = None, close_fault = None,
     stat_fault = (\<lambda>p. None),
     unlink_fault = (\<lambda>p. None), create_pool_fault = None, client_fault = None,
     client_user = ''bot'', client_id = ''1''\<rparr>"

definition fresh :: world where
  "fresh = \<lparr>trace = [], store = \<lparr>files = {}, dangling = {}, db = Map.empty\<rparr>, sys_modules = [],
     all_tables = []\<rparr>"

definition writes :: "string \<Rightarrow> migrator" where
  "writes n = \<lparr>fname = ''migrate_'' @ n,
     body = (\<lambda>s. (None, s\<lparr>db := (db s)(n \<mapsto> [''row''])\<rparr>))\<rparr>"

definition fails :: "string \<Rightarrow> migrator" where
  "fails n = \<lparr>fname = ''migrate_'' @ n, body = (\<lambda>s. (Some (Failure n), s))\<rparr>"

definition good_table :: "string \<Rightarrow> table" where
  "good_table n = \<lparr>tablename = n, table_module = ''cogs.'' @ n,
     create = (\<lambda>verbose s. (None, s\<lparr>db := (db s)(n \<mapsto> [])\<rparr>))\<rparr>"

definition bad_table :: "string \<Rightarrow> table" where
  "bad_table n = \<lparr>tablename = n, table_module = ''cogs.'' @ n,
     create = (\<lambda>verbose s. (Some (Failure n), s))\<rparr>"

text \<open>A world with the two store files of a table \<open>ghost\<close> that the database does not have.\<close>

definition ghost_world :: world where
  "ghost_world = fresh\<lparr>store :=
     \<lparr>files = {Path [] [''migrations'', ''ghost.json''],
                Path [] [''migrations'', ''current-ghost.json'']},
      dangling = {}, db = Map.empty\<rparr>\<rparr>"

text \<open>A world where the table \<open>users\<close> exists, with its two store files.\<close>

definition users_world :: world where
  "users_world = fresh\<lparr>store :=
     \<lparr>files = {Path [] [''migrations'', ''users.json''],
                Path [] [''migrations'', ''current-users.json'']},
      dangling = {}, db = [''users'' \<mapsto> [''row'']]\<rparr>\<rparr>"

text \<open>
  An environment in which the extension \<open>cogs.shop\<close> declares three tables, the second
  of which cannot be created.
\<close>

definition shop_env :: env where
  "shop_env = calm\<lparr>module_tables :=
     (\<lambda>ext. if ext = ''cogs.shop'' then [good_table ''a'', bad_table ''b'', good_table ''c'']
            else [])\<rparr>"

text \<open>Events that belong to the phase \<open>p\<close> or to none.\<close>

definition only_phase :: "phase \<Rightarrow> event list \<Rightarrow> bool" where
  "only_phase p es = list_all (\<lambda>ev. phase_of ev = None \<or> phase_of ev = Some p) es"

text \<open>A module of three routines, declared in the order \<open>a\<close>, \<open>b\<close>, \<open>c\<close>, where \<open>b\<close> fails.\<close>

definition abc_module :: pymodule where
  "abc_module = [(''migrate_a'', writes ''a''), (''migrate_b'', fails ''b''),
                 (''migrate_c'', writes ''c'')]"

text \<open>
  A module with the single routine \<open>migrate_profiles\<close>, and a module that declares
  \<open>migrate_b\<close> before \<open>migrate_a\<close>.
\<close>

definition profiles_module :: pymodule where
  "profiles_module = [(''migrate_profiles'', writes ''profiles'')]"

definition ba_module :: pymodule where
  "ba_module = [(''migrate_b'', writes ''b''), (''migrate_a'', writes ''a'')]"

text \<open>A module whose routine \<open>migrate_shop\<close> belongs to the extension \<open>cogs.shop\<close>.\<close>

definition shop_module :: pymodule where
  "shop_module = [(''migrate_shop'', writes ''shop'')]"



section \<open>The files of a table\<close>

lemma split_sep_absent: "c \<notin> set s \<Longrightarrow> split_sep c s = [s]"
  by (induction s) auto

lemma rfind_absent: "c \<notin> set s \<Longrightarrow> rfind s c = - 1"
  by (simp add: rfind_def)

lemma parse_parts_component:
  assumes "s \<noteq> []" and "CHR ''/'' \<notin> set s" and "s \<noteq> ''.''"
  shows "parse_parts s = Path [] [s]"
proof -
  from assms have "hd s \<noteq> CHR ''/''" by (cases s) auto
  then have "splitroot s = ([], s)" by (simp add: splitroot_def)
  with assms show ?thesis by (simp add: parse_parts_def split_sep_absent)
qed

lemma migration_file_plain:
  assumes "name \<noteq> []" and "CHR ''/'' \<notin> set name" and "CHR ''.'' \<notin> set name"
  shows "migration_file name = Inr (Path [] [''migrations'', name @ ''.json''])"
proof -
  from assms have "name \<noteq> ''.''" by auto
  with assms have n: "parse_parts name = Path [] [name]" by (simp add: parse_parts_component)
  have m: "parse_parts ''migrations'' = Path [] [''migrations'']"
    by (rule parse_parts_component) simp_all
  have j: "joinpath (parse_parts ''migrations'') name = Path [] [''migrations'', name]"
    by (simp add: joinpath_def n m)
  have pn: "path_name (Path [] [''migrations'', name]) = name"
    by (simp add: path_name_def)
  have ps: "path_suffix (Path [] [''migrations'', name]) = []"
    using assms by (simp add: path_suffix_def pn rfind_absent Let_def)
  show ?thesis using assms
    by (simp add: migration_file_def j with_suffix_def pn ps startswith_def Let_def)
qed

lemma current_file_plain:
  assumes "CHR ''/'' \<notin> set name"
  shows "current_file (Path [] [''migrations'', name @ ''.json''])
         = Inr (Path [] [''migrations'', ''current-'' @ name @ ''.json''])"
proof -
  have pn: "path_name (Path [] [''migrations'', name @ ''.json'']) = name @ ''.json''"
    by (simp add: path_name_def)
  have "parse_parts (''current-'' @ name @ ''.json'') = Path [] [''current-'' @ name @ ''.json'']"
    using assms by (intro parse_parts_component) auto
  then show ?thesis
    by (simp add: current_file_def with_name_def pn Let_def)
qed

lemma str_path_two: "a \<noteq> [] \<Longrightarrow> str_path (Path [] [a, b]) = a @ ''/'' @ b"
  by (simp add: str_path_def Let_def)

text \<open>
  Claim C8, as amended. The two files \<open>dropdb\<close> addresses are computed from the table
  name alone (\<open>migration_file\<close> takes nothing else, \<open>current_file\<close> only its result).
  For a table name that is not empty and contains neither a slash nor a dot, they are
  \<open>migrations/<name>.json\<close> and \<open>migrations/current-<name>.json\<close>.
\<close>

theorem store_files_of_plain_name:
  assumes "name \<noteq> []" and "CHR ''/'' \<notin> set name" and "CHR ''.'' \<notin> set name"
  shows "\<exists>migration current.
           migration_file name = Inr migration \<and> current_file migration = Inr current \<and>
           str_path migration = ''migrations/'' @ name @ ''.json'' \<and>
           str_path current = ''migrations/current-'' @ name @ ''.json''"
  using assms
  by (simp add: migration_file_plain current_file_plain str_path_two)

text \<open>The theorem at the table name \<open>users\<close>.\<close>

theorem store_files_of_plain_name_witness:
  "''users'' \<noteq> [] \<and> CHR ''/'' \<notin> set ''users'' \<and> CHR ''.'' \<notin> set ''users'' \<and>
   (\<exists>migration current.
      migration_file ''users'' = Inr migration \<and> current_file migration = Inr current \<and>
      str_path migration = ''migrations/users.json'' \<and>
      str_path current = ''migrations/current-users.json'')"
  using store_files_of_plain_name [of "''users''"] by simp

text \<open>
  Claim C8 as first stated fails for a name with a dot inside: \<open>with_suffix\<close> replaces
  what follows the last dot, so the table \<open>public.users\<close> is stored in
  \<open>migrations/public.json\<close>, not in \<open>migrations/public.users.json\<close>.
\<close>

theorem dotted_name_counterexample:
  "map_sum id str_path (migration_file ''public.users'') = Inr ''migrations/public.json'' \<and>
   map_sum id str_path (migration_file ''public.users'')
     \<noteq> Inr (''migrations/'' @ ''public.users'' @ ''.json'')"
  by code_simp

section \<open>Events and storage of the basic steps\<close>

lemma emit_simps [simp]:
  "trace (emit e w) = trace w @ [e]"
  "store (emit e w) = store w"
  "sys_modules (emit e w) = sys_modules w"
  "all_tables (emit e w) = all_tables w"
  by (simp_all add: emit_def)

lemma echo_simps [simp]:
  "trace (echo m b w) = trace w @ [Echo m b]"
  "store (echo m b w) = store w"
  "sys_modules (echo m b w) = sys_modules w"
  "all_tables (echo m b w) = all_tables w"
  by (simp_all add: echo_def)

lemma new_events_append [simp]: "trace w' = trace w @ es \<Longrightarrow> new_events w w' = es"
  by (simp add: new_events_def)

lemma new_events_self [simp]: "new_events w w = []"
  by (simp add: new_events_def)

lemma users_paths:
  "migration_file ''users'' = Inr (Path [] [''migrations'', ''users.json''])"
  "current_file (Path [] [''migrations'', ''users.json''])
     = Inr (Path [] [''migrations'', ''current-users.json''])"
  by code_simp+

lemma ghost_paths:
  "migration_file ''ghost'' = Inr (Path [] [''migrations'', ''ghost.json''])"
  "current_file (Path [] [''migrations'', ''ghost.json''])
     = Inr (Path [] [''migrations'', ''current-ghost.json''])"
  by code_simp+

section \<open>Dropping a table\<close>

text \<open>
  Claim C5. Without the operator's confirmation \<open>dropdb\<close> ends with an exception
  (\<open>click.Abort\<close>, or the \<open>ValueError\<close> of a name without a file name), the database and
  the files of the store are what they were, and neither a statement was executed nor a
  file unlinked.
\<close>

theorem dropdb_needs_confirmation:
  assumes "\<not> confirm_answer env"
  shows "(\<exists>e. fst (dropdb env name quiet w) = Raised e) \<and>
         store (snd (dropdb env name quiet w)) = store w \<and>
         filter is_destructive (new_events w (snd (dropdb env name quiet w))) = []"
  using assms by (auto simp: dropdb_def Let_def split: sum.splits)

text \<open>The theorem for an operator who declines to drop \<open>users\<close>.\<close>

theorem dropdb_needs_confirmation_witness:
  "\<not> confirm_answer (calm\<lparr>confirm_answer := False\<rparr>) \<and>
   (\<exists>e. fst (dropdb (calm\<lparr>confirm_answer := False\<rparr>) ''users'' False users_world) = Raised e) \<and>
   store (snd (dropdb (calm\<lparr>confirm_answer := False\<rparr>) ''users'' False users_world))
     = store users_world \<and>
   filter is_destructive
     (new_events users_world
        (snd (dropdb (calm\<lparr>confirm_answer := False\<rparr>) ''users'' False users_world))) = []"
  using dropdb_needs_confirmation [of "calm\<lparr>confirm_answer := False\<rparr>" "''users''" False users_world]
  by (simp add: calm_def)

text \<open>What a confirmed \<open>dropdb\<close> does when the \<open>DROP TABLE\<close> statement raises.\<close>

lemma remove_database_drop_raises:
  assumes "connect_fault env = None" and "drop_table env name (db (store w)) = Inl e"
  shows "remove_database env name w
         = (Raised e, emit (PgExecute (''DROP TABLE '' @ name @ '';'')) (emit PgConnect w))"
  using assms by (simp add: remove_database_def Let_def)

lemma dropdb_drop_raises:
  assumes "confirm_answer env" and "connect_fault env = None"
    and "drop_table env name (db (store w)) = Inl e"
    and "migration_file name = Inr migration" and "current_file migration = Inr current"
  shows "dropdb env name quiet w =
           (let w2 = emit (PgExecute (''DROP TABLE '' @ name @ '';''))
                       (emit PgConnect (emit (Confirm ''do you really want to do this?'') w))
            in if is_Exception e
               then (Returned,
                     echo (''could not delete the database'' @ nl @ format_exc env e) True w2)
               else (Raised e, w2))"
  using assms by (simp add: dropdb_def Let_def remove_database_drop_raises)

text \<open>
  Claim C9. When the connection succeeds and the \<open>DROP TABLE\<close> statement raises an
  error, a confirmed \<open>dropdb\<close> prints \<open>could not delete the database\<close> with the traceback
  on the error stream and returns: the storage is what it was and no file was unlinked.
\<close>

theorem dropdb_failed_drop_keeps_store:
  assumes "confirm_answer env" and "connect_fault env = None"
    and "drop_table env name (db (store w)) = Inl e" and "is_Exception e"
    and "migration_file name = Inr migration" and "current_file migration = Inr current"
  shows "dropdb env name quiet w =
           (Returned,
            echo (''could not delete the database'' @ nl @ format_exc env e) True
              (emit (PgExecute (''DROP TABLE '' @ name @ '';''))
                 (emit PgConnect (emit (Confirm ''do you really want to do this?'') w)))) \<and>
         store (snd (dropdb env name quiet w)) = store w \<and>
         (\<forall>p. Unlink p \<notin> set (new_events w (snd (dropdb env name quiet w))))"
  using assms by (simp add: dropdb_drop_raises Let_def)

text \<open>The theorem for a server that refuses to drop the existing table \<open>users\<close>.\<close>

theorem dropdb_failed_drop_keeps_store_witness:
  "dropdb (calm\<lparr>execute_fault := Some (Failure ''locked'')\<rparr>) ''users'' False users_world =
     (Returned,
      echo (''could not delete the database'' @ nl @ ''Traceback'') True
        (emit (PgExecute ''DROP TABLE users;'')
           (emit PgConnect (emit (Confirm ''do you really want to do this?'') users_world)))) \<and>
   store (snd (dropdb (calm\<lparr>execute_fault := Some (Failure ''locked'')\<rparr>) ''users'' False users_world))
     = store users_world \<and>
   (\<forall>p. Unlink p \<notin> set (new_events users_world
      (snd (dropdb (calm\<lparr>execute_fault := Some (Failure ''locked'')\<rparr>) ''users'' False users_world))))"
proof -
  let ?env = "calm\<lparr>execute_fault := Some (Failure ''locked'')\<rparr>"
  have h1: "confirm_answer ?env" and h2: "connect_fault ?env = None"
    by (simp_all add: calm_def)
  have h3: "drop_table ?env ''users'' (db (store users_world)) = Inl (Failure ''locked'')"
    by (simp add: drop_table_def calm_def)
  have h4: "is_Exception (Failure ''locked'')" by simp
  show ?thesis
    using dropdb_failed_drop_keeps_store [OF h1 h2 h3 h4 users_paths, of False]
    by (simp add: calm_def)
qed

text \<open>
  Claim C6, as amended. The \<open>DROP TABLE\<close> of a confirmed \<open>dropdb\<close> is not best-effort:
  when the connection succeeds and the table does not exist, the statement raises, the
  failure is printed as an error on the error stream, and the command returns without
  removing the history of the table: the files of the store are what they were.
\<close>

theorem dropdb_missing_table_is_error:
  assumes "confirm_answer env" and "connect_fault env = None" and "execute_fault env = None"
    and "db (store w) name = None"
    and "migration_file name = Inr migration" and "current_file migration = Inr current"
  shows "dropdb env name quiet w =
           (Returned,
            echo (''could not delete the database'' @ nl
                  @ format_exc env (UndefinedTableError name)) True
              (emit (PgExecute (''DROP TABLE '' @ name @ '';''))
                 (emit PgConnect (emit (Confirm ''do you really want to do this?'') w)))) \<and>
         files (store (snd (dropdb env name quiet w))) = files (store w) \<and>
         (\<forall>p. Unlink p \<notin> set (new_events w (snd (dropdb env name quiet w))))"
proof -
  from assms have "drop_table env name (db (store w)) = Inl (UndefinedTableError name)"
    by (simp add: drop_table_def)
  with assms show ?thesis by (simp add: dropdb_drop_raises Let_def)
qed

text \<open>The theorem for the table \<open>ghost\<close>, which has store files and no live table.\<close>

theorem dropdb_missing_table_is_error_witness:
  "db (store ghost_world) ''ghost'' = None \<and>
   dropdb calm ''ghost'' False ghost_world =
     (Returned,
      echo (''could not delete the database'' @ nl @ ''Traceback'') True
        (emit (PgExecute ''DROP TABLE ghost;'')
           (emit PgConnect (emit (Confirm ''do you really want to do this?'') ghost_world)))) \<and>
   files (store (snd (dropdb calm ''ghost'' False ghost_world))) = files (store ghost_world) \<and>
   (\<forall>p. Unlink p \<notin> set (new_events ghost_world (snd (dropdb calm ''ghost'' False ghost_world))))"
proof -
  have h1: "confirm_answer calm" and h2: "connect_fault calm = None"
    and h3: "execute_fault calm = None"
    by (simp_all add: calm_def)
  have h4: "db (store ghost_world) ''ghost'' = None"
    by (simp add: ghost_world_def fresh_def)
  show ?thesis
    using h4 dropdb_missing_table_is_error [OF h1 h2 h3 h4 ghost_paths, of False]
    by (simp add: calm_def)
qed

text \<open>
  Claim C6 as first stated fails: for the confirmed drop of \<open>ghost\<close>, a table the
  database does not have, the command prints an error, executes no \<open>unlink\<close>, and both
  files of the store are still there.
\<close>

theorem missing_table_counterexample:
  "fst (dropdb calm ''ghost'' False ghost_world) = Returned \<and>
   trace (snd (dropdb calm ''ghost'' False ghost_world)) =
     [Confirm ''do you really want to do this?'', PgConnect, PgExecute ''DROP TABLE ghost;'',
      Echo (''could not delete the database'' @ nl @ ''Traceback'') True] \<and>
   files (store (snd (dropdb calm ''ghost'' False ghost_world))) =
     {Path [] [''migrations'', ''ghost.json''], Path [] [''migrations'', ''current-ghost.json'']}"
  by (simp add: dropdb_def ghost_paths calm_def ghost_world_def fresh_def remove_database_def
      drop_table_def Let_def)












section \<open>Initialising the tables\<close>

lemma perform_simps:
  "trace (snd (perform a w)) = trace w"
  "sys_modules (snd (perform a w)) = sys_modules w"
  "all_tables (snd (perform a w)) = all_tables w"
  "fst (perform a w) = fst (a (store w))"
  "store (snd (perform a w)) = snd (a (store w))"
  by (simp_all add: perform_def split: prod.splits)

lemma perform_eq:
  "perform a w = (r, w') \<Longrightarrow> trace w' = trace w \<and> r = fst (a (store w)) \<and> store w' = snd (a (store w))"
  using perform_simps [of a w] by simp

lemma attempted_append: "attempted (xs @ ys) = attempted xs @ attempted ys"
  by (induction xs rule: attempted.induct) simp_all

lemma create_tables_append:
  "create_tables env quiet ts1 w = (Returned, w1) \<Longrightarrow>
   create_tables env quiet (ts1 @ ts2) w = create_tables env quiet ts2 w1"
  by (induction ts1 arbitrary: w) (auto split: prod.splits option.splits if_splits)

lemma create_tables_step_fails:
  assumes "perform (create t (\<not> quiet)) (emit (TableCreate (tablename t) (\<not> quiet)) w) = (Some e, w2)"
    and "is_Exception e"
  shows "create_tables env quiet (t # rest) w =
         create_tables env quiet rest
           (echo (''Could not create '' @ tablename t @ ''.'' @ nl @ format_exc env e) True w2)"
  using assms by simp

lemma create_tables_trace:
  "\<exists>es. trace (snd (create_tables env quiet ts w)) = trace w @ es"
proof (induction ts arbitrary: w)
  case Nil
  then show ?case by simp
next
  case (Cons t ts)
  obtain r w1 where p: "perform (create t (\<not> quiet)) (emit (TableCreate (tablename t) (\<not> quiet)) w) = (r, w1)"
    by (cases "perform (create t (\<not> quiet)) (emit (TableCreate (tablename t) (\<not> quiet)) w)")
  then have t1: "trace w1 = trace w @ [TableCreate (tablename t) (\<not> quiet)]"
    by (auto dest: perform_eq)
  show ?case
  proof (cases r)
    case None
    with p t1 Cons.IH [of "echo (''['' @ table_module t @ ''] Processing creation or migration for ''
                   @ tablename t @ '' complete.'') False w1"]
    show ?thesis by auto
  next
    case (Some e)
    with p t1 Cons.IH [of "echo (''Could not create '' @ tablename t @ ''.'' @ nl @ format_exc env e) True w1"]
    show ?thesis by auto
  qed
qed

lemma create_tables_all_attempted:
  assumes "\<forall>t\<in>set ts. \<forall>s e. fst (create t (\<not> quiet) s) = Some e \<longrightarrow> is_Exception e"
  shows "fst (create_tables env quiet ts w) = Returned \<and>
         attempted (new_events w (snd (create_tables env quiet ts w))) = map tablename ts"
  using assms
proof (induction ts arbitrary: w)
  case Nil
  then show ?case by simp
next
  case (Cons t ts)
  let ?w0 = "emit (TableCreate (tablename t) (\<not> quiet)) w"
  obtain r w1 where p: "perform (create t (\<not> quiet)) ?w0 = (r, w1)"
    by (cases "perform (create t (\<not> quiet)) ?w0")
  then have t1: "trace w1 = trace w @ [TableCreate (tablename t) (\<not> quiet)]"
    and r: "r = fst (create t (\<not> quiet) (store ?w0))"
    by (auto dest: perform_eq)
  define w2 where "w2 = (case r of
      None \<Rightarrow> echo (''['' @ table_module t @ ''] Processing creation or migration for ''
                   @ tablename t @ '' complete.'') False w1
    | Some e \<Rightarrow> echo (''Could not create '' @ tablename t @ ''.'' @ nl @ format_exc env e) True w1)"
  have ex: "\<And>e. r = Some e \<Longrightarrow> is_Exception e"
    using Cons.prems r by auto
  have step: "create_tables env quiet (t # ts) w = create_tables env quiet ts w2"
    using p ex by (auto simp: w2_def split: option.splits)
  have "\<exists>m b. trace w2 = trace w @ [TableCreate (tablename t) (\<not> quiet), Echo m b]"
    using t1 by (cases r) (auto simp: w2_def)
  then obtain m b where t2: "trace w2 = trace w @ [TableCreate (tablename t) (\<not> quiet), Echo m b]"
    by blast
  from Cons.IH [of w2] Cons.prems
  have ih: "fst (create_tables env quiet ts w2) = Returned"
    "attempted (new_events w2 (snd (create_tables env quiet ts w2))) = map tablename ts"
    by auto
  obtain es where es: "trace (snd (create_tables env quiet ts w2)) = trace w2 @ es"
    using create_tables_trace by blast
  with ih have "attempted es = map tablename ts" by simp
  with es t2 have "attempted (new_events w (snd (create_tables env quiet ts w2))) = tablename t # map tablename ts"
    by (simp add: attempted_append)
  with ih step show ?case by simp
qed


lemma import_module_trace:
  "trace (snd (import_module env ext w)) = trace w @ [ImportModule ext]"
  by (simp add: import_module_def Let_def split: option.splits)

lemma load_extensions_trace:
  "\<exists>es. trace (snd (load_extensions env exts w)) = trace w @ es \<and>
        (\<forall>ev\<in>set es. (\<exists>x. ev = ImportModule x) \<or> (\<exists>m b. ev = Echo m b))"
proof (induction exts arbitrary: w)
  case Nil
  then show ?case by simp
next
  case (Cons ext exts)
  obtain r w1 where i: "import_module env ext w = (r, w1)"
    by (cases "import_module env ext w")
  with import_module_trace [of env ext w] have t1: "trace w1 = trace w @ [ImportModule ext]"
    by simp
  show ?case
  proof (cases r)
    case None
    with i t1 Cons.IH [of w1] show ?thesis by auto
  next
    case (Some e)
    show ?thesis
    proof (cases "is_Exception e")
      case True
      with Some i t1
        Cons.IH [of "echo (''Could not load '' @ ext @ ''.'' @ nl @ format_exc env e) True w1"]
      show ?thesis by auto
    next
      case False
      with Some i t1 show ?thesis by auto
    qed
  qed
qed

lemma attempted_none:
  "\<forall>ev\<in>set es. (\<exists>x. ev = ImportModule x) \<or> (\<exists>m b. ev = Echo m b) \<Longrightarrow> attempted es = []"
  by (induction es rule: attempted.induct) auto

lemma create_tables_returned:
  "create_tables env quiet ts w = (Returned, w') \<Longrightarrow>
   \<exists>es. trace w' = trace w @ es \<and> attempted es = map tablename ts"
proof (induction ts arbitrary: w)
  case Nil
  then show ?case by simp
next
  case (Cons t ts)
  let ?w0 = "emit (TableCreate (tablename t) (\<not> quiet)) w"
  obtain r w1 where p: "perform (create t (\<not> quiet)) ?w0 = (r, w1)"
    by (cases "perform (create t (\<not> quiet)) ?w0")
  then have t1: "trace w1 = trace w @ [TableCreate (tablename t) (\<not> quiet)]"
    by (auto dest: perform_eq)
  from Cons.prems p obtain m b where
    rest: "create_tables env quiet ts (echo m b w1) = (Returned, w')"
    by (auto split: option.splits if_splits)
  from Cons.IH [OF rest] obtain es where
    "trace w' = trace (echo m b w1) @ es" "attempted es = map tablename ts"
    by blast
  with t1 have "trace w' = trace w @ (TableCreate (tablename t) (\<not> quiet) # Echo m b # es) \<and>
    attempted (TableCreate (tablename t) (\<not> quiet) # Echo m b # es) = map tablename (t # ts)"
    by simp
  then show ?case by blast
qed

lemma create_tables_returns:
  assumes "\<forall>t\<in>set ts. \<forall>s e. fst (create t (\<not> quiet) s) = Some e \<longrightarrow> is_Exception e"
  shows "fst (create_tables env quiet ts w) = Returned"
  using create_tables_all_attempted [OF assms] by simp

text \<open>
  Claim C4. In \<open>initdb\<close>, let the table \<open>t\<close> be reached after the tables \<open>before\<close> and let
  its \<open>create\<close> fail with an error. Then the command prints \<open>Could not create <tablename>.\<close>
  with the traceback on the error stream and goes on with the loop over all the tables
  \<open>rest\<close> that follow; unless one of those raises something that is not an \<open>Exception\<close>,
  the command returns and the creation of every registered table was attempted, in order.
\<close>

theorem initdb_table_failure_is_isolated:
  assumes pool: "table_pool_fault env = None"
    and load: "load_extensions env (if extension = [] then initial_extensions env else extension)
                 (emit TableCreatePool w) = (Returned, w0)"
    and tabs: "all_tables w0 = before @ t # rest"
    and bef: "create_tables env quiet before w0 = (Returned, w1)"
    and step: "perform (create t (\<not> quiet)) (emit (TableCreate (tablename t) (\<not> quiet)) w1)
                 = (Some e, w2)"
    and exc: "is_Exception e"
  shows "initdb env extension quiet w =
           create_tables env quiet rest
             (echo (''Could not create '' @ tablename t @ ''.'' @ nl @ format_exc env e) True w2) \<and>
         Echo (''Could not create '' @ tablename t @ ''.'' @ nl @ format_exc env e) True
           \<in> set (new_events w (snd (initdb env extension quiet w))) \<and>
         ((\<forall>t'\<in>set rest. \<forall>s e'. fst (create t' (\<not> quiet) s) = Some e' \<longrightarrow> is_Exception e') \<longrightarrow>
            fst (initdb env extension quiet w) = Returned \<and>
            attempted (new_events w (snd (initdb env extension quiet w)))
              = map tablename (before @ t # rest))"
proof -
  let ?msg = "''Could not create '' @ tablename t @ ''.'' @ nl @ format_exc env e"
  let ?w3 = "echo ?msg True w2"
  have "create_tables env quiet (before @ t # rest) w0 = create_tables env quiet (t # rest) w1"
    using bef by (rule create_tables_append)
  also have "\<dots> = create_tables env quiet rest ?w3"
    using step exc by (rule create_tables_step_fails)
  finally have loop: "create_tables env quiet (before @ t # rest) w0
                      = create_tables env quiet rest ?w3" .
  have eq: "initdb env extension quiet w = create_tables env quiet rest ?w3"
    using pool load tabs loop by (simp add: initdb_def Let_def)
  obtain es0 where es0: "trace w0 = trace w @ TableCreatePool # es0" "attempted es0 = []"
  proof -
    from load_extensions_trace
      [of env "if extension = [] then initial_extensions env else extension" "emit TableCreatePool w"]
      load
    obtain es where "trace w0 = trace (emit TableCreatePool w) @ es"
      "\<forall>ev\<in>set es. (\<exists>x. ev = ImportModule x) \<or> (\<exists>m b. ev = Echo m b)"
      by auto
    then have "trace w0 = trace w @ TableCreatePool # es" "attempted es = []"
      by (simp_all add: attempted_none)
    then show ?thesis by (rule that)
  qed
  obtain es1 where es1: "trace w1 = trace w0 @ es1" "attempted es1 = map tablename before"
    using create_tables_returned [OF bef] by blast
  have t2: "trace w2 = trace w1 @ [TableCreate (tablename t) (\<not> quiet)]"
    using step by (auto dest: perform_eq)
  obtain es3 where es3: "trace (snd (create_tables env quiet rest ?w3)) = trace ?w3 @ es3"
    using create_tables_trace by blast
  have tr: "trace (snd (initdb env extension quiet w)) =
        trace w @ (TableCreatePool # es0 @ es1
                   @ [TableCreate (tablename t) (\<not> quiet), Echo ?msg True] @ es3)"
    using eq es0 es1 t2 es3 by simp
  then have ne: "new_events w (snd (initdb env extension quiet w)) =
        TableCreatePool # es0 @ es1 @ [TableCreate (tablename t) (\<not> quiet), Echo ?msg True] @ es3"
    by (rule new_events_append)
  have reported: "Echo ?msg True \<in> set (new_events w (snd (initdb env extension quiet w)))"
    by (simp add: ne)
  have goes_on: "fst (initdb env extension quiet w) = Returned \<and>
            attempted (new_events w (snd (initdb env extension quiet w)))
              = map tablename (before @ t # rest)"
    if h: "\<forall>t'\<in>set rest. \<forall>s e'. fst (create t' (\<not> quiet) s) = Some e' \<longrightarrow> is_Exception e'"
  proof -
    from create_tables_all_attempted [OF h, of env ?w3]
    have r: "fst (create_tables env quiet rest ?w3) = Returned"
      and a: "attempted (new_events ?w3 (snd (create_tables env quiet rest ?w3))) = map tablename rest"
      by simp_all
    from a es3 have "attempted es3 = map tablename rest" by simp
    with es0 es1 have "attempted (new_events w (snd (initdb env extension quiet w)))
              = map tablename (before @ t # rest)"
      by (simp add: ne attempted_append)
    with r eq show ?thesis by simp
  qed
  from eq reported goes_on show ?thesis by blast
qed


text \<open>
  The theorem for an extension with the tables \<open>a\<close>, \<open>b\<close>, \<open>c\<close>, where \<open>b\<close> cannot be
  created: the failure of \<open>b\<close> is printed and \<open>c\<close> is still attempted.
\<close>

theorem initdb_table_failure_is_isolated_witness:
  "fst (initdb shop_env [''cogs.shop''] False fresh) = Returned \<and>
   attempted (new_events fresh (snd (initdb shop_env [''cogs.shop''] False fresh)))
     = [''a'', ''b'', ''c''] \<and>
   Echo (''Could not create b.'' @ nl @ ''Traceback'') True
     \<in> set (new_events fresh (snd (initdb shop_env [''cogs.shop''] False fresh)))"
proof -
  define w0 where "w0 = snd (load_extensions shop_env [''cogs.shop''] (emit TableCreatePool fresh))"
  define w1 where "w1 = snd (create_tables shop_env False [good_table ''a''] w0)"
  define w2 where "w2 = snd (perform (create (bad_table ''b'') (\<not> False))
                               (emit (TableCreate (tablename (bad_table ''b'')) (\<not> False)) w1))"
  have pool: "table_pool_fault shop_env = None"
    by (simp add: shop_env_def calm_def)
  have load: "load_extensions shop_env
                (if [''cogs.shop''] = [] then initial_extensions shop_env else [''cogs.shop''])
                (emit TableCreatePool fresh) = (Returned, w0)"
    by (simp add: w0_def import_module_def shop_env_def calm_def fresh_def Let_def)
  have tabs: "all_tables w0 = [good_table ''a''] @ bad_table ''b'' # [good_table ''c'']"
    by (simp add: w0_def import_module_def shop_env_def calm_def fresh_def Let_def)
  have bef: "create_tables shop_env False [good_table ''a''] w0 = (Returned, w1)"
    by (simp add: w1_def perform_def good_table_def split: prod.splits)
  have step: "perform (create (bad_table ''b'') (\<not> False))
                (emit (TableCreate (tablename (bad_table ''b'')) (\<not> False)) w1)
              = (Some (Failure ''b''), w2)"
    by (simp add: w2_def perform_def bad_table_def)
  have exc: "is_Exception (Failure ''b'')" by simp
  have rest: "\<forall>t'\<in>set [good_table ''c'']. \<forall>s e'.
                fst (create t' (\<not> False) s) = Some e' \<longrightarrow> is_Exception e'"
    by (simp add: good_table_def)
  have n: "tablename (bad_table ''b'') = ''b''"
    by (simp add: bad_table_def)
  have f: "format_exc shop_env (Failure ''b'') = ''Traceback''"
    by (simp add: shop_env_def calm_def)
  have ns: "map tablename ([good_table ''a''] @ bad_table ''b'' # [good_table ''c''])
            = [''a'', ''b'', ''c'']"
    by (simp add: good_table_def bad_table_def)
  note T = initdb_table_failure_is_isolated [OF pool load tabs bef step exc]
  have reported: "Echo (''Could not create b.'' @ nl @ ''Traceback'') True
     \<in> set (new_events fresh (snd (initdb shop_env [''cogs.shop''] False fresh)))"
    using T [THEN conjunct2, THEN conjunct1] unfolding n f by simp
  from T [THEN conjunct2, THEN conjunct2] rest have "fst (initdb shop_env [''cogs.shop''] False fresh) = Returned \<and>
   attempted (new_events fresh (snd (initdb shop_env [''cogs.shop''] False fresh)))
     = map tablename ([good_table ''a''] @ bad_table ''b'' # [good_table ''c''])"
    by blast
  with reported show ?thesis unfolding ns by blast
qed

section \<open>Importing\<close>

lemma invoked_append: "invoked (xs @ ys) = invoked xs @ invoked ys"
  by (induction xs rule: invoked.induct) simp_all

lemma map_filter_append: "List.map_filter f (xs @ ys) = List.map_filter f xs @ List.map_filter f ys"
  by (simp add: List.map_filter_def)

lemma run_migrators_append:
  "run_migrators env us w = (Completed, w1) \<Longrightarrow>
   run_migrators env (us @ vs) w = run_migrators env vs w1"
  by (induction us arbitrary: w) (auto split: prod.splits option.splits if_splits)

lemma run_migrators_completed:
  "run_migrators env us w = (Completed, w1) \<Longrightarrow>
   \<exists>es. trace w1 = trace w @ es \<and> invoked es = map (fname \<circ> fst) us"
proof (induction us arbitrary: w)
  case Nil
  then show ?case by simp
next
  case (Cons u us)
  obtain f cog where u: "u = (f, cog)" by (cases u)
  let ?w0 = "emit (Invoke (fname f)) w"
  obtain r w2 where p: "perform (body f) ?w0 = (r, w2)"
    by (cases "perform (body f) ?w0")
  then have t2: "trace w2 = trace w @ [Invoke (fname f)]"
    by (auto dest: perform_eq)
  from Cons.prems u p have
    rest: "run_migrators env us
             (echo (''migrator '' @ fname f @ '' completed successfully'') False w2) = (Completed, w1)"
    by (auto split: option.splits if_splits)
  from Cons.IH [OF rest] obtain es where
    "trace w1 = trace (echo (''migrator '' @ fname f @ '' completed successfully'') False w2) @ es"
    "invoked es = map (fname \<circ> fst) us"
    by blast
  with t2 u have "trace w1 = trace w @ (Invoke (fname f)
        # Echo (''migrator '' @ fname f @ '' completed successfully'') False # es) \<and>
     invoked (Invoke (fname f)
        # Echo (''migrator '' @ fname f @ '' completed successfully'') False # es)
       = map (fname \<circ> fst) (u # us)"
    by simp
  then show ?case by blast
qed

lemma run_migrators_step_fails:
  assumes "perform (body u) (emit (Invoke (fname u)) w) = (Some e, w2)" and "is_Exception e"
  shows "run_migrators env ((u, cog) # rest) w =
           (ReturnedEarly,
            echo (''migrator '' @ fname u @ '' has failed, terminating'' @ nl @ format_exc env e)
              True w2)"
  using assms by simp

lemma run_migrators_halts:
  assumes bef: "run_migrators env before w = (Completed, w1)"
    and step: "perform (body u) (emit (Invoke (fname u)) w1) = (Some e, w2)"
    and exc: "is_Exception e"
  shows "run_migrators env (before @ (u, cog) # rest) w =
           (ReturnedEarly,
            echo (''migrator '' @ fname u @ '' has failed, terminating'' @ nl @ format_exc env e)
              True w2)"
  using run_migrators_append [OF bef] run_migrators_step_fails [OF step exc] by simp


lemma only_phase_simps [simp]:
  "only_phase p []"
  "only_phase p (ev # es) = ((phase_of ev = None \<or> phase_of ev = Some p) \<and> only_phase p es)"
  "only_phase p (xs @ ys) = (only_phase p xs \<and> only_phase p ys)"
  by (simp_all add: only_phase_def)

lemma only_phase_invoked: "only_phase p es \<Longrightarrow> p \<noteq> RunUnits \<Longrightarrow> invoked es = []"
  by (induction es rule: invoked.induct) auto

lemma load_extensions_phase:
  "\<exists>es. trace (snd (load_extensions env exts w)) = trace w @ es \<and> only_phase EnsureSchema es"
proof -
  from load_extensions_trace [of env exts w] obtain es where
    t: "trace (snd (load_extensions env exts w)) = trace w @ es"
    and k: "\<forall>ev\<in>set es. (\<exists>x. ev = ImportModule x) \<or> (\<exists>m b. ev = Echo m b)"
    by blast
  from k have "only_phase EnsureSchema es"
    by (induction es) auto
  with t show ?thesis by blast
qed

lemma create_tables_phase:
  "\<exists>es. trace (snd (create_tables env quiet ts w)) = trace w @ es \<and> only_phase EnsureSchema es"
proof (induction ts arbitrary: w)
  case Nil
  then show ?case by simp
next
  case (Cons t ts)
  obtain r w1 where
    p: "perform (create t (\<not> quiet)) (emit (TableCreate (tablename t) (\<not> quiet)) w) = (r, w1)"
    by (cases "perform (create t (\<not> quiet)) (emit (TableCreate (tablename t) (\<not> quiet)) w)")
  then have t1: "trace w1 = trace w @ [TableCreate (tablename t) (\<not> quiet)]"
    by (auto dest: perform_eq)
  show ?case
  proof (cases r)
    case None
    with p t1 Cons.IH [of "echo (''['' @ table_module t @ ''] Processing creation or migration for ''
                   @ tablename t @ '' complete.'') False w1"]
    show ?thesis by auto
  next
    case (Some e)
    with p t1
      Cons.IH [of "echo (''Could not create '' @ tablename t @ ''.'' @ nl @ format_exc env e) True w1"]
    show ?thesis by auto
  qed
qed

lemma initdb_phase:
  "\<exists>es. trace (snd (initdb env extension quiet w)) = trace w @ TableCreatePool # es \<and>
        only_phase EnsureSchema es"
proof (cases "table_pool_fault env")
  case (Some e)
  then show ?thesis by (auto simp: initdb_def Let_def)
next
  case None
  let ?exts = "if extension = [] then initial_extensions env else extension"
  obtain r w2 where l: "load_extensions env ?exts (emit TableCreatePool w) = (r, w2)"
    by (cases "load_extensions env ?exts (emit TableCreatePool w)")
  with load_extensions_phase [of env ?exts "emit TableCreatePool w"] obtain es where
    es: "trace w2 = trace w @ TableCreatePool # es" "only_phase EnsureSchema es"
    by auto
  show ?thesis
  proof (cases r)
    case Returned
    with None l have eq: "initdb env extension quiet w = create_tables env quiet (all_tables w2) w2"
      by (simp add: initdb_def Let_def)
    from create_tables_phase [of env quiet "all_tables w2" w2] obtain es' where
      "trace (snd (create_tables env quiet (all_tables w2) w2)) = trace w2 @ es'"
      "only_phase EnsureSchema es'"
      by blast
    with es eq have "trace (snd (initdb env extension quiet w)) = trace w @ TableCreatePool # (es @ es')
        \<and> only_phase EnsureSchema (es @ es')"
      by simp
    then show ?thesis by blast
  next
    case (Raised e)
    with None l es show ?thesis by (auto simp: initdb_def Let_def)
  qed
qed

lemma client_start_ready:
  "client_fault env = None \<Longrightarrow>
   client_start env w =
     (Returned,
      emit ClientLogout
        (echo (''successfully booted up bot '' @ client_user env
               @ '' (ID: '' @ client_id env @ '')'') False (emit ClientStart w)))"
  by (simp add: client_start_def Let_def)

lemma run_import_reaches_loop:
  assumes "create_pool_fault env = None" and "client_fault env = None"
    and "initdb env (extensions to_run) False
           (snd (client_start env (emit PgCreatePool w))) = (Returned, w3)"
  shows "run_import env to_run w =
           (command_outcome (fst (run_migrators env to_run w3)), snd (run_migrators env to_run w3))"
proof -
  define w2 where "w2 = snd (client_start env (emit PgCreatePool w))"
  have cs: "client_start env (emit PgCreatePool w) = (Returned, w2)"
    using assms(2) by (simp add: w2_def client_start_def Let_def)
  have db: "initdb env (extensions to_run) False w2 = (Returned, w3)"
    using assms(3) by (simp only: w2_def)
  show ?thesis
    by (simp add: run_import_def Let_def assms(1) cs db split: prod.splits)
qed

text \<open>
  Claim C2. Let the import reach its loop over the routines \<open>before\<close>, \<open>u\<close>, \<open>rest\<close>, let all
  of \<open>before\<close> complete, and let \<open>u\<close> raise an error. Then \<open>convertjson\<close> prints
  \<open>migrator <name of u> has failed, terminating\<close> with the traceback on the error stream and
  returns: the routines invoked are those of \<open>before\<close> and \<open>u\<close>, none of \<open>rest\<close>, and the
  storage is the one \<open>u\<close> left from the storage that \<open>before\<close> had produced, which nothing
  reverts.
\<close>

theorem import_halts_at_first_failure:
  assumes units: "to_run_for data_migrators cogs = Inr (before @ (u, cog) # rest)"
    and pool: "create_pool_fault env = None"
    and client: "client_fault env = None"
    and schema: "initdb env (extensions (before @ (u, cog) # rest)) False
                   (snd (client_start env (emit PgCreatePool w))) = (Returned, w3)"
    and bef: "run_migrators env before w3 = (Completed, w4)"
    and step: "perform (body u) (emit (Invoke (fname u)) w4) = (Some e, w5)"
    and exc: "is_Exception e"
  shows "convertjson env data_migrators cogs w =
           (Returned,
            echo (''migrator '' @ fname u @ '' has failed, terminating'' @ nl @ format_exc env e)
              True w5) \<and>
         invoked (new_events w (snd (convertjson env data_migrators cogs w)))
           = map (fname \<circ> fst) before @ [fname u] \<and>
         store (snd (convertjson env data_migrators cogs w)) = snd (body u (store w4))"
proof -
  let ?msg = "''migrator '' @ fname u @ '' has failed, terminating'' @ nl @ format_exc env e"
  have loop: "run_migrators env (before @ (u, cog) # rest) w3 = (ReturnedEarly, echo ?msg True w5)"
    using bef step exc by (rule run_migrators_halts)
  have eq: "convertjson env data_migrators cogs w = (Returned, echo ?msg True w5)"
    using units run_import_reaches_loop [OF pool client schema] loop
    by (simp add: convertjson_def)
  let ?w2 = "snd (client_start env (emit PgCreatePool w))"
  have t2: "trace ?w2 = trace w @ [PgCreatePool, ClientStart,
              Echo (''successfully booted up bot '' @ client_user env
                    @ '' (ID: '' @ client_id env @ '')'') False, ClientLogout]"
    using client by (simp add: client_start_ready)
  from initdb_phase
    [of env "extensions (before @ (u, cog) # rest)" False ?w2] schema
  obtain es3 where es3: "trace w3 = trace ?w2 @ TableCreatePool # es3" "only_phase EnsureSchema es3"
    by auto
  from run_migrators_completed [OF bef] obtain es4 where
    es4: "trace w4 = trace w3 @ es4" "invoked es4 = map (fname \<circ> fst) before"
    by blast
  from step have t5: "trace w5 = trace w4 @ [Invoke (fname u)]"
    and s5: "store w5 = snd (body u (store w4))"
    by (auto dest: perform_eq)
  have "trace (echo ?msg True w5) = trace w @ ([PgCreatePool, ClientStart,
              Echo (''successfully booted up bot '' @ client_user env
                    @ '' (ID: '' @ client_id env @ '')'') False, ClientLogout]
           @ TableCreatePool # es3 @ es4 @ [Invoke (fname u), Echo ?msg True])"
    using t2 es3 es4 t5 by simp
  then have "new_events w (echo ?msg True w5) = [PgCreatePool, ClientStart,
              Echo (''successfully booted up bot '' @ client_user env
                    @ '' (ID: '' @ client_id env @ '')'') False, ClientLogout]
           @ TableCreatePool # es3 @ es4 @ [Invoke (fname u), Echo ?msg True]"
    by (rule new_events_append)
  then have inv: "invoked (new_events w (echo ?msg True w5)) = map (fname \<circ> fst) before @ [fname u]"
    using es3 es4 by (simp add: invoked_append only_phase_invoked)
  from eq inv s5 show ?thesis by simp
qed

text \<open>
  The theorem for the routines \<open>a\<close>, \<open>b\<close>, \<open>c\<close> where \<open>b\<close> fails: \<open>c\<close> is not invoked and
  the rows of \<open>a\<close> are still there.
\<close>

theorem import_halts_at_first_failure_witness:
  "fst (convertjson calm abc_module [''a'', ''b'', ''c''] fresh) = Returned \<and>
   invoked (new_events fresh (snd (convertjson calm abc_module [''a'', ''b'', ''c''] fresh)))
     = [''migrate_a'', ''migrate_b''] \<and>
   db (store (snd (convertjson calm abc_module [''a'', ''b'', ''c''] fresh))) ''a'' = Some [''row''] \<and>
   db (store (snd (convertjson calm abc_module [''a'', ''b'', ''c''] fresh))) ''c'' = None \<and>
   last (trace (snd (convertjson calm abc_module [''a'', ''b'', ''c''] fresh)))
     = Echo (''migrator migrate_b has failed, terminating'' @ nl @ ''Traceback'') True"
proof -
  define w3 where "w3 = snd (initdb calm
      (extensions ([(writes ''a'', ''a'')] @ (fails ''b'', ''b'') # [(writes ''c'', ''c'')]))
      False (snd (client_start calm (emit PgCreatePool fresh))))"
  define w4 where "w4 = snd (run_migrators calm [(writes ''a'', ''a'')] w3)"
  define w5 where "w5 = snd (perform (body (fails ''b'')) (emit (Invoke (fname (fails ''b''))) w4))"
  have units: "to_run_for abc_module [''a'', ''b'', ''c'']
               = Inr ([(writes ''a'', ''a'')] @ (fails ''b'', ''b'') # [(writes ''c'', ''c'')])"
    by (simp add: to_run_for_def abc_module_def py_getattr_def)
  have pool: "create_pool_fault calm = None" and client: "client_fault calm = None"
    by (simp_all add: calm_def)
  have schema: "initdb calm
      (extensions ([(writes ''a'', ''a'')] @ (fails ''b'', ''b'') # [(writes ''c'', ''c'')]))
      False (snd (client_start calm (emit PgCreatePool fresh))) = (Returned, w3)"
    by (simp add: w3_def initdb_def import_module_def client_start_def calm_def fresh_def
        emit_def echo_def extensions_def Let_def)
  have bef: "run_migrators calm [(writes ''a'', ''a'')] w3 = (Completed, w4)"
    by (simp add: w4_def perform_def writes_def split: prod.splits)
  have step: "perform (body (fails ''b'')) (emit (Invoke (fname (fails ''b''))) w4)
              = (Some (Failure ''b''), w5)"
    by (simp add: w5_def perform_def fails_def)
  have exc: "is_Exception (Failure ''b'')" by simp
  note T = import_halts_at_first_failure [OF units pool client schema bef step exc]
  have s3: "db (store w3) = Map.empty"
    by (simp add: w3_def initdb_def import_module_def client_start_def calm_def fresh_def
        emit_def echo_def extensions_def Let_def)
  have s4: "db (store w4) = [''a'' \<mapsto> [''row'']]"
    using s3 by (simp add: w4_def perform_def writes_def split: prod.splits)
  have names: "fname (fails ''b'') = ''migrate_b''" "fname (writes ''a'') = ''migrate_a''"
    "format_exc calm (Failure ''b'') = ''Traceback''"
    by (simp_all add: fails_def writes_def calm_def)
  have c1: "fst (convertjson calm abc_module [''a'', ''b'', ''c''] fresh) = Returned"
    and c5: "last (trace (snd (convertjson calm abc_module [''a'', ''b'', ''c''] fresh)))
     = Echo (''migrator migrate_b has failed, terminating'' @ nl @ ''Traceback'') True"
    using T [THEN conjunct1] by (simp_all add: names)
  have c2: "invoked (new_events fresh (snd (convertjson calm abc_module [''a'', ''b'', ''c''] fresh)))
     = [''migrate_a'', ''migrate_b'']"
    using T [THEN conjunct2, THEN conjunct1] by (simp add: names)
  have c3: "db (store (snd (convertjson calm abc_module [''a'', ''b'', ''c''] fresh))) = [''a'' \<mapsto> [''row'']]"
    using T [THEN conjunct2, THEN conjunct2] s4 by (simp add: fails_def)
  from c1 c2 c3 c5 show ?thesis by simp
qed


lemma only_phase_replicate:
  "only_phase p es \<Longrightarrow> \<exists>n. List.map_filter phase_of es = replicate n p"
proof (induction es)
  case Nil
  then show ?case by (simp add: List.map_filter_simps)
next
  case (Cons ev es)
  then obtain n where n: "List.map_filter phase_of es = replicate n p" by auto
  from Cons.prems have "phase_of ev = None \<or> phase_of ev = Some p" by simp
  then show ?case
  proof
    assume "phase_of ev = None"
    with n show ?thesis by (auto simp: List.map_filter_simps)
  next
    assume "phase_of ev = Some p"
    with n have "List.map_filter phase_of (ev # es) = replicate (Suc n) p"
      by (simp add: List.map_filter_simps)
    then show ?thesis by blast
  qed
qed

lemma remdups_adj_absorb: "remdups_adj (p # replicate n p @ ys) = remdups_adj (p # ys)"
  by (induction n) simp_all

lemma run_migrators_phase:
  "\<exists>es. trace (snd (run_migrators env us w)) = trace w @ es \<and> only_phase RunUnits es \<and>
        (us \<noteq> [] \<longrightarrow> (\<exists>n es'. es = Invoke n # es'))"
proof (induction us arbitrary: w)
  case Nil
  then show ?case by simp
next
  case (Cons u us)
  obtain f cog where u: "u = (f, cog)" by (cases u)
  obtain r w1 where p: "perform (body f) (emit (Invoke (fname f)) w) = (r, w1)"
    by (cases "perform (body f) (emit (Invoke (fname f)) w)")
  then have t1: "trace w1 = trace w @ [Invoke (fname f)]"
    by (auto dest: perform_eq)
  show ?case
  proof (cases r)
    case None
    from Cons.IH [of "echo (''migrator '' @ fname f @ '' completed successfully'') False w1"]
    obtain es where "trace (snd (run_migrators env us
        (echo (''migrator '' @ fname f @ '' completed successfully'') False w1)))
        = trace (echo (''migrator '' @ fname f @ '' completed successfully'') False w1) @ es"
      "only_phase RunUnits es"
      by blast
    with None p t1 u show ?thesis by auto
  next
    case (Some e)
    with p t1 u show ?thesis by auto
  qed
qed

lemma phases_import:
  "phases ([PgCreatePool, ClientStart, Echo m False, ClientLogout] @ TableCreatePool # es3 @ es4)
   = [Connect, OpenSession, CloseSession, EnsureSchema]
     @ (if List.map_filter phase_of es4 = [] then [] else [RunUnits])"
  if "only_phase EnsureSchema es3" and "only_phase RunUnits es4"
proof -
  from that obtain n k where n: "List.map_filter phase_of es3 = replicate n EnsureSchema"
    and k: "List.map_filter phase_of es4 = replicate k RunUnits"
    using only_phase_replicate by blast
  have "phases ([PgCreatePool, ClientStart, Echo m False, ClientLogout] @ TableCreatePool # es3 @ es4)
        = Connect # OpenSession # CloseSession
          # remdups_adj (EnsureSchema # replicate n EnsureSchema @ replicate k RunUnits)"
    by (simp add: phases_def List.map_filter_simps map_filter_append n k)
  also have "\<dots> = Connect # OpenSession # CloseSession
                    # remdups_adj (EnsureSchema # replicate k RunUnits)"
    by (simp only: remdups_adj_absorb)
  also have "\<dots> = [Connect, OpenSession, CloseSession, EnsureSchema]
                    @ (if k = 0 then [] else [RunUnits])"
  proof (cases k)
    case 0
    then show ?thesis by simp
  next
    case (Suc j)
    have "remdups_adj (RunUnits # replicate j RunUnits @ []) = remdups_adj [RunUnits]"
      by (rule remdups_adj_absorb)
    with Suc show ?thesis by simp
  qed
  finally show ?thesis by (simp add: k)
qed

text \<open>The four ways an import that has its routines can go, by the events it adds.\<close>

lemma run_import_events:
  "(\<exists>m. new_events w (snd (run_import env to_run w)) = [PgCreatePool, Echo m True]) \<or>
   new_events w (snd (run_import env to_run w)) = [PgCreatePool] \<or>
   new_events w (snd (run_import env to_run w)) = [PgCreatePool, ClientStart] \<or>
   (\<exists>es3 es4.
      new_events w (snd (run_import env to_run w))
        = [PgCreatePool, ClientStart,
           Echo (''successfully booted up bot '' @ client_user env
                 @ '' (ID: '' @ client_id env @ '')'') False,
           ClientLogout] @ TableCreatePool # es3 @ es4 \<and>
      only_phase EnsureSchema es3 \<and> only_phase RunUnits es4)"
proof (cases "create_pool_fault env")
  case (Some e)
  then show ?thesis
    by (cases "is_Exception e") (simp_all add: run_import_def Let_def)
next
  case None
  note pool = this
  show ?thesis
  proof (cases "client_fault env")
    case (Some e)
    with pool have "new_events w (snd (run_import env to_run w)) = [PgCreatePool, ClientStart]"
      by (simp add: run_import_def client_start_def Let_def)
    then show ?thesis by blast
  next
    case None
    note client = this
    define m where "m = ''successfully booted up bot '' @ client_user env
               @ '' (ID: '' @ client_id env @ '')''"
    define w2 where "w2 = snd (client_start env (emit PgCreatePool w))"
    have cs: "client_start env (emit PgCreatePool w) = (Returned, w2)"
      and t2: "trace w2 = trace w @ [PgCreatePool, ClientStart, Echo m False, ClientLogout]"
      using client by (simp_all add: w2_def m_def client_start_def Let_def)
    obtain r w3 where i: "initdb env (extensions to_run) False w2 = (r, w3)"
      by (cases "initdb env (extensions to_run) False w2")
    with initdb_phase [of env "extensions to_run" False w2] obtain es3 where
      es3: "trace w3 = trace w2 @ TableCreatePool # es3" "only_phase EnsureSchema es3"
      by auto
    have "\<exists>es4. new_events w (snd (run_import env to_run w))
          = [PgCreatePool, ClientStart, Echo m False, ClientLogout] @ TableCreatePool # es3 @ es4 \<and>
          only_phase RunUnits es4"
    proof (cases r)
      case (Raised e)
      with pool cs i have "snd (run_import env to_run w) = w3"
        by (simp add: run_import_def Let_def)
      with t2 es3 have "new_events w (snd (run_import env to_run w))
          = [PgCreatePool, ClientStart, Echo m False, ClientLogout] @ TableCreatePool # es3 @ [] \<and>
          only_phase RunUnits []"
        by simp
      then show ?thesis by blast
    next
      case Returned
      with pool cs i have eq: "snd (run_import env to_run w) = snd (run_migrators env to_run w3)"
        by (simp add: run_import_def Let_def split: prod.splits)
      from run_migrators_phase [of env to_run w3] obtain es4 where
        es4: "trace (snd (run_migrators env to_run w3)) = trace w3 @ es4" "only_phase RunUnits es4"
        by blast
      with t2 es3 eq have "new_events w (snd (run_import env to_run w))
          = [PgCreatePool, ClientStart, Echo m False, ClientLogout] @ TableCreatePool # es3 @ es4"
        by simp
      with es4 show ?thesis by blast
    qed
    with es3 show ?thesis unfolding m_def by blast
  qed
qed

lemma run_import_phases:
  "\<exists>k. phases (new_events w (snd (run_import env to_run w)))
        = take k [Connect, OpenSession, CloseSession, EnsureSchema, RunUnits]"
proof -
  let ?es = "new_events w (snd (run_import env to_run w))"
  let ?all = "[Connect, OpenSession, CloseSession, EnsureSchema, RunUnits]"
  from run_import_events [of w env to_run]
  consider (pool) m where "?es = [PgCreatePool, Echo m True]"
    | (interrupt) "?es = [PgCreatePool]"
    | (client) "?es = [PgCreatePool, ClientStart]"
    | (schema) m es3 es4 where
        "?es = [PgCreatePool, ClientStart, Echo m False, ClientLogout] @ TableCreatePool # es3 @ es4"
        "only_phase EnsureSchema es3" "only_phase RunUnits es4"
    by blast
  then show ?thesis
  proof cases
    case pool
    then have "phases ?es = take 1 ?all"
      by (simp add: phases_def List.map_filter_simps)
    then show ?thesis by blast
  next
    case interrupt
    then have "phases ?es = take 1 ?all"
      by (simp add: phases_def List.map_filter_simps)
    then show ?thesis by blast
  next
    case client
    then have "phases ?es = take 2 ?all"
      by (simp add: phases_def List.map_filter_simps)
    then show ?thesis by blast
  next
    case schema
    from phases_import [OF schema(2,3), of m] schema(1)
    have ph: "phases ?es = [Connect, OpenSession, CloseSession, EnsureSchema]
          @ (if List.map_filter phase_of es4 = [] then [] else [RunUnits])"
      by simp
    show ?thesis
    proof (cases "List.map_filter phase_of es4 = []")
      case True
      with ph have "phases ?es = take 4 ?all" by simp
      then show ?thesis by blast
    next
      case False
      with ph have "phases ?es = take 5 ?all" by simp
      then show ?thesis by blast
    qed
  qed
qed

lemma run_import_session_first:
  assumes "ev \<in> set (new_events w (snd (run_import env to_run w)))"
    and "phase_of ev = Some EnsureSchema \<or> phase_of ev = Some RunUnits"
  shows "take 5 (new_events w (snd (run_import env to_run w)))
         = [PgCreatePool, ClientStart,
            Echo (''successfully booted up bot '' @ client_user env
                  @ '' (ID: '' @ client_id env @ '')'') False,
            ClientLogout, TableCreatePool]"
proof -
  let ?es = "new_events w (snd (run_import env to_run w))"
  define m where "m = ''successfully booted up bot '' @ client_user env
               @ '' (ID: '' @ client_id env @ '')''"
  from run_import_events [of w env to_run]
  consider (pool) x where "?es = [PgCreatePool, Echo x True]"
    | (interrupt) "?es = [PgCreatePool]"
    | (client) "?es = [PgCreatePool, ClientStart]"
    | (schema) es3 es4 where
        "?es = [PgCreatePool, ClientStart, Echo m False, ClientLogout] @ TableCreatePool # es3 @ es4"
    unfolding m_def by blast
  then have "take 5 ?es = [PgCreatePool, ClientStart, Echo m False, ClientLogout, TableCreatePool]"
  proof cases
    case pool
    with assms show ?thesis by auto
  next
    case interrupt
    with assms show ?thesis by auto
  next
    case client
    with assms show ?thesis by auto
  next
    case schema
    then show ?thesis by simp
  qed
  then show ?thesis unfolding m_def .
qed

lemma run_import_all_phases:
  assumes "to_run \<noteq> []" and pool: "create_pool_fault env = None"
    and client: "client_fault env = None"
    and schema: "fst (initdb env (extensions to_run) False
                  (snd (client_start env (emit PgCreatePool w)))) = Returned"
  shows "phases (new_events w (snd (run_import env to_run w)))
         = [Connect, OpenSession, CloseSession, EnsureSchema, RunUnits]"
proof -
  define m where "m = ''successfully booted up bot '' @ client_user env
               @ '' (ID: '' @ client_id env @ '')''"
  define w2 where "w2 = snd (client_start env (emit PgCreatePool w))"
  have t2: "trace w2 = trace w @ [PgCreatePool, ClientStart, Echo m False, ClientLogout]"
    using client by (simp add: w2_def m_def client_start_def Let_def)
  define w3 where "w3 = snd (initdb env (extensions to_run) False w2)"
  have i: "initdb env (extensions to_run) False (snd (client_start env (emit PgCreatePool w)))
           = (Returned, w3)"
    using schema by (simp add: w3_def w2_def prod_eq_iff)
  from initdb_phase [of env "extensions to_run" False w2] obtain es3 where
    es3: "trace w3 = trace w2 @ TableCreatePool # es3" "only_phase EnsureSchema es3"
    by (auto simp: w3_def)
  have eq: "snd (run_import env to_run w) = snd (run_migrators env to_run w3)"
    using run_import_reaches_loop [OF pool client i] by simp
  from run_migrators_phase [of env to_run w3] \<open>to_run \<noteq> []\<close> obtain n es' where
    es4: "trace (snd (run_migrators env to_run w3)) = trace w3 @ Invoke n # es'"
      "only_phase RunUnits (Invoke n # es')"
    by blast
  with t2 es3 eq have "new_events w (snd (run_import env to_run w))
      = [PgCreatePool, ClientStart, Echo m False, ClientLogout] @ TableCreatePool # es3 @ Invoke n # es'"
    by simp
  with phases_import [OF es3(2) es4(2), of m] show ?thesis
    by (simp add: List.map_filter_simps)
qed

text \<open>
  Claim C3, as amended. In every import run the phases come in the order: create the
  connection pool, open the session with the external service (\<open>client.start\<close>), close it
  (the logout of \<open>on_ready\<close>, once the service is ready), ensure the schema (\<open>initdb\<close> for
  the extensions of the requested routines), run the routines. A run that stops early
  performs an initial segment of this sequence. Whenever a run ensures the schema or
  runs a routine at all, its first five events are the pool, the start of the client,
  the line that the client is ready, the logout, and the first step of \<open>initdb\<close>: the
  session has been established and ended before the schema is ensured. A run with at
  least one routine, no fault of the pool or of the client and an \<open>initdb\<close> that returns
  performs all five phases.
\<close>

theorem import_phase_order:
  "(\<exists>k. phases (new_events w (snd (convertjson env data_migrators cogs w)))
          = take k [Connect, OpenSession, CloseSession, EnsureSchema, RunUnits]) \<and>
   (\<forall>ev\<in>set (new_events w (snd (convertjson env data_migrators cogs w))).
       phase_of ev = Some EnsureSchema \<or> phase_of ev = Some RunUnits \<longrightarrow>
       take 5 (new_events w (snd (convertjson env data_migrators cogs w)))
         = [PgCreatePool, ClientStart,
            Echo (''successfully booted up bot '' @ client_user env
                  @ '' (ID: '' @ client_id env @ '')'') False,
            ClientLogout, TableCreatePool]) \<and>
   (\<forall>to_run. to_run_for data_migrators cogs = Inr to_run \<and> to_run \<noteq> [] \<and>
       create_pool_fault env = None \<and> client_fault env = None \<and>
       fst (initdb env (extensions to_run) False
              (snd (client_start env (emit PgCreatePool w)))) = Returned \<longrightarrow>
       phases (new_events w (snd (convertjson env data_migrators cogs w)))
         = [Connect, OpenSession, CloseSession, EnsureSchema, RunUnits])"
proof (intro conjI)
  show "\<exists>k. phases (new_events w (snd (convertjson env data_migrators cogs w)))
          = take k [Connect, OpenSession, CloseSession, EnsureSchema, RunUnits]"
  proof (cases "to_run_for data_migrators cogs")
    case (Inl bad)
    then have "phases (new_events w (snd (convertjson env data_migrators cogs w)))
          = take 0 [Connect, OpenSession, CloseSession, EnsureSchema, RunUnits]"
      by (cases bad) (simp_all add: convertjson_def phases_def List.map_filter_simps)
    then show ?thesis by blast
  next
    case (Inr to_run)
    then show ?thesis using run_import_phases [of w env to_run]
      by (simp add: convertjson_def)
  qed
next
  show "\<forall>ev\<in>set (new_events w (snd (convertjson env data_migrators cogs w))).
       phase_of ev = Some EnsureSchema \<or> phase_of ev = Some RunUnits \<longrightarrow>
       take 5 (new_events w (snd (convertjson env data_migrators cogs w)))
         = [PgCreatePool, ClientStart,
            Echo (''successfully booted up bot '' @ client_user env
                  @ '' (ID: '' @ client_id env @ '')'') False,
            ClientLogout, TableCreatePool]"
  proof (cases "to_run_for data_migrators cogs")
    case (Inl bad)
    then show ?thesis
      by (cases bad) (auto simp: convertjson_def)
  next
    case (Inr to_run)
    then have eq: "convertjson env data_migrators cogs w = run_import env to_run w"
      by (simp add: convertjson_def)
    show ?thesis
      unfolding eq using run_import_session_first [of _ w env to_run] by blast
  qed
next
  show "\<forall>to_run. to_run_for data_migrators cogs = Inr to_run \<and> to_run \<noteq> [] \<and>
       create_pool_fault env = None \<and> client_fault env = None \<and>
       fst (initdb env (extensions to_run) False
              (snd (client_start env (emit PgCreatePool w)))) = Returned \<longrightarrow>
       phases (new_events w (snd (convertjson env data_migrators cogs w)))
         = [Connect, OpenSession, CloseSession, EnsureSchema, RunUnits]"
    using run_import_all_phases by (auto simp: convertjson_def)
qed

text \<open>
  The theorem for the import of \<open>shop\<close>, whose extension declares three tables: all five
  phases, and the logout before the first step of \<open>initdb\<close>.
\<close>

theorem import_phase_order_witness:
  "phases (new_events fresh (snd (convertjson shop_env shop_module [''shop''] fresh)))
     = [Connect, OpenSession, CloseSession, EnsureSchema, RunUnits] \<and>
   take 5 (new_events fresh (snd (convertjson shop_env shop_module [''shop''] fresh)))
     = [PgCreatePool, ClientStart, Echo ''successfully booted up bot bot (ID: 1)'' False,
        ClientLogout, TableCreatePool]"
proof -
  let ?es = "new_events fresh (snd (convertjson shop_env shop_module [''shop''] fresh))"
  have units: "to_run_for shop_module [''shop''] = Inr [(writes ''shop'', ''shop'')]"
    by (simp add: to_run_for_def shop_module_def py_getattr_def)
  have pool: "create_pool_fault shop_env = None" and client: "client_fault shop_env = None"
    by (simp_all add: shop_env_def calm_def)
  have schema: "fst (initdb shop_env (extensions [(writes ''shop'', ''shop'')]) False
                  (snd (client_start shop_env (emit PgCreatePool fresh)))) = Returned"
    by (simp add: initdb_def import_module_def client_start_def shop_env_def calm_def fresh_def
        emit_def echo_def extensions_def perform_def good_table_def bad_table_def Let_def)
  note T = import_phase_order [of fresh shop_env shop_module "[''shop'']"]
  have all: "phases ?es = [Connect, OpenSession, CloseSession, EnsureSchema, RunUnits]"
    using T [THEN conjunct2, THEN conjunct2] units pool client schema by blast
  then have "RunUnits \<in> set (List.map_filter phase_of ?es)"
    by (metis phases_def list.set_intros(1,2) remdups_adj_set)
  then obtain ev where ev: "ev \<in> set ?es" "phase_of ev = Some RunUnits"
    by (auto simp: List.map_filter_def)
  have who: "client_user shop_env = ''bot''" "client_id shop_env = ''1''"
    by (simp_all add: shop_env_def calm_def)
  from T [THEN conjunct2, THEN conjunct1] ev
  have "take 5 ?es = [PgCreatePool, ClientStart,
            Echo (''successfully booted up bot '' @ client_user shop_env
                  @ '' (ID: '' @ client_id shop_env @ '')'') False,
            ClientLogout, TableCreatePool]"
    by blast
  then have "take 5 ?es = [PgCreatePool, ClientStart,
      Echo ''successfully booted up bot bot (ID: 1)'' False, ClientLogout, TableCreatePool]"
    unfolding who by simp
  with all show ?thesis by simp
qed

text \<open>
  Claim C3 as first stated fails: in the import of \<open>shop\<close> the client is started and
  logged out before \<open>initdb\<close> creates its pool, imports the extension and creates the
  tables.
\<close>

theorem schema_after_session_counterexample:
  "trace (snd (convertjson shop_env shop_module [''shop''] fresh)) =
     [PgCreatePool,
      ClientStart, Echo ''successfully booted up bot bot (ID: 1)'' False, ClientLogout,
      TableCreatePool, ImportModule ''cogs.shop'',
      TableCreate ''a'' True,
      Echo ''[cogs.a] Processing creation or migration for a complete.'' False,
      TableCreate ''b'' True, Echo (''Could not create b.'' @ nl @ ''Traceback'') True,
      TableCreate ''c'' True,
      Echo ''[cogs.c] Processing creation or migration for c complete.'' False,
      Invoke ''migrate_shop'', Echo ''migrator migrate_shop completed successfully'' False] \<and>
   phases (trace (snd (convertjson shop_env shop_module [''shop''] fresh)))
     = [Connect, OpenSession, CloseSession, EnsureSchema, RunUnits]"
  by code_simp

section \<open>Resolving the requested routines\<close>

lemma named_units_invalid:
  "\<exists>c\<in>set cogs. py_getattr m (''migrate_'' @ c) = None \<Longrightarrow>
   \<exists>bad\<in>set cogs. py_getattr m (''migrate_'' @ bad) = None \<and> named_units m acc cogs = Inl bad"
proof (induction cogs arbitrary: acc)
  case Nil
  then show ?case by simp
next
  case (Cons cog cogs)
  show ?case
  proof (cases "py_getattr m (''migrate_'' @ cog)")
    case None
    then show ?thesis by simp
  next
    case (Some elem)
    with Cons.prems have "\<exists>c\<in>set cogs. py_getattr m (''migrate_'' @ c) = None" by auto
    from Cons.IH [OF this, of "acc @ [(elem, cog)]"] Some show ?thesis by auto
  qed
qed

text \<open>
  Claim C1, as amended. When the requested names do not contain \<open>all\<close> and one of them has
  no \<open>migrate_<name>\<close> attribute in \<open>data_migrators\<close>, \<open>convertjson\<close> prints
  \<open>invalid cog name given, <name>.\<close> on the error stream for such a name and returns; this
  is all it does: the storage is what it was, and no pool is created, no client started,
  no schema ensured and no routine run.
\<close>

theorem unknown_unit_fails_validation:
  assumes "''all'' \<notin> set cogs" and "c \<in> set cogs"
    and "py_getattr data_migrators (''migrate_'' @ c) = None"
  shows "\<exists>bad\<in>set cogs.
           py_getattr data_migrators (''migrate_'' @ bad) = None \<and>
           convertjson env data_migrators cogs w
             = (Returned, echo (''invalid cog name given, '' @ bad @ ''.'') True w) \<and>
           store (snd (convertjson env data_migrators cogs w)) = store w \<and>
           phases (new_events w (snd (convertjson env data_migrators cogs w))) = []"
proof -
  from assms have "\<exists>c\<in>set cogs. py_getattr data_migrators (''migrate_'' @ c) = None" by blast
  from named_units_invalid [OF this, of "[]"] obtain bad where
    bad: "bad \<in> set cogs" "py_getattr data_migrators (''migrate_'' @ bad) = None"
      "named_units data_migrators [] cogs = Inl bad"
    by blast
  with assms(1) have "convertjson env data_migrators cogs w
             = (Returned, echo (''invalid cog name given, '' @ bad @ ''.'') True w)"
    by (simp add: convertjson_def to_run_for_def)
  with bad show ?thesis
    by (auto simp: phases_def List.map_filter_simps)
qed

text \<open>
  The theorem for the request \<open>profiles\<close>, \<open>missing_unit\<close> on a module that only has
  \<open>migrate_profiles\<close>.
\<close>

theorem unknown_unit_fails_validation_witness:
  "''all'' \<notin> set [''profiles'', ''missing_unit''] \<and>
   py_getattr profiles_module (''migrate_'' @ ''missing_unit'') = None \<and>
   (\<exists>bad\<in>set [''profiles'', ''missing_unit''].
      py_getattr profiles_module (''migrate_'' @ bad) = None \<and>
      convertjson calm profiles_module [''profiles'', ''missing_unit''] fresh
        = (Returned, echo (''invalid cog name given, '' @ bad @ ''.'') True fresh) \<and>
      store (snd (convertjson calm profiles_module [''profiles'', ''missing_unit''] fresh))
        = store fresh \<and>
      phases (new_events fresh
                (snd (convertjson calm profiles_module [''profiles'', ''missing_unit''] fresh))) = [])"
proof -
  have h1: "''all'' \<notin> set [''profiles'', ''missing_unit'']" by simp
  have h2: "''missing_unit'' \<in> set [''profiles'', ''missing_unit'']" by simp
  have h3: "py_getattr profiles_module (''migrate_'' @ ''missing_unit'') = None"
    by (simp add: py_getattr_def profiles_module_def)
  show ?thesis
    using h1 h3 unknown_unit_fails_validation [OF h1 h2 h3, of calm fresh]
    by blast
qed

text \<open>
  Claim C1 as first stated fails when \<open>all\<close> is among the names: the request \<open>all\<close>,
  \<open>missing_unit\<close> is not validated, although \<open>missing_unit\<close> is not registered; the pool is
  created, the client started and \<open>migrate_profiles\<close> run.
\<close>

theorem all_skips_validation_counterexample:
  "py_getattr profiles_module (''migrate_'' @ ''missing_unit'') = None \<and>
   trace (snd (convertjson calm profiles_module [''all'', ''missing_unit''] fresh)) =
     [PgCreatePool,
      ClientStart, Echo ''successfully booted up bot bot (ID: 1)'' False, ClientLogout,
      TableCreatePool, ImportModule ''cogs.profiles'',
      Invoke ''migrate_profiles'',
      Echo ''migrator migrate_profiles completed successfully'' False]"
  by code_simp

lemma py_getattr_declared: "attr \<in> fst ` set m \<Longrightarrow> \<exists>f. py_getattr m attr = Some f"
proof -
  assume "attr \<in> fst ` set m"
  then have "attr \<in> fst ` set (rev m)" by simp
  then have "map_of (rev m) attr \<noteq> None" by (simp only: map_of_eq_None_iff not_not)
  then show ?thesis by (auto simp: py_getattr_def)
qed

lemma all_units_declared:
  "set attrs \<subseteq> fst ` set m \<Longrightarrow>
   \<exists>to_run. all_units m attrs = Inr to_run \<and>
     map (\<lambda>u. Some (fst u)) to_run = map (py_getattr m) (filter (\<lambda>a. startswith a ''migrate_'') attrs) \<and>
     map snd to_run
       = map (str_replace ''migrate_'' []) (filter (\<lambda>a. startswith a ''migrate_'') attrs)"
proof (induction attrs)
  case Nil
  then show ?case by simp
next
  case (Cons attr attrs)
  from Cons.prems have sub: "set attrs \<subseteq> fst ` set m" and mem: "attr \<in> fst ` set m"
    by simp_all
  from Cons.IH [OF sub] obtain r where r: "all_units m attrs = Inr r"
    "map (\<lambda>u. Some (fst u)) r = map (py_getattr m) (filter (\<lambda>a. startswith a ''migrate_'') attrs)"
    "map snd r = map (str_replace ''migrate_'' []) (filter (\<lambda>a. startswith a ''migrate_'') attrs)"
    by blast
  from py_getattr_declared [OF mem] obtain f where f: "py_getattr m attr = Some f"
    by blast
  show ?case
  proof (cases "startswith attr ''migrate_''")
    case True
    with r f show ?thesis by simp
  next
    case False
    with r show ?thesis by simp
  qed
qed

text \<open>
  Claim C7, as amended. When the requested names include \<open>all\<close>, the routines to run are
  the values of all the attributes of \<open>data_migrators\<close> whose name starts with \<open>migrate_\<close>,
  each once, in the ascending order of the attribute names, which is the order of
  \<open>dir(data_migrators)\<close>; each is paired with its attribute name without \<open>migrate_\<close>.
\<close>

theorem all_expands_in_name_order:
  assumes "''all'' \<in> set cogs"
  shows "\<exists>to_run attrs.
           to_run_for data_migrators cogs = Inr to_run \<and>
           map (\<lambda>u. Some (fst u)) to_run = map (py_getattr data_migrators) attrs \<and>
           map snd to_run = map (str_replace ''migrate_'' []) attrs \<and>
           sorted attrs \<and> distinct attrs \<and>
           set attrs = {a \<in> fst ` set data_migrators. startswith a ''migrate_''}"
proof -
  let ?attrs = "filter (\<lambda>a. startswith a ''migrate_'') (py_dir data_migrators)"
  have "set (py_dir data_migrators) \<subseteq> fst ` set data_migrators"
    by (simp add: py_dir_def)
  from all_units_declared [OF this] obtain to_run where
    t: "all_units data_migrators (py_dir data_migrators) = Inr to_run"
      "map (\<lambda>u. Some (fst u)) to_run = map (py_getattr data_migrators) ?attrs"
      "map snd to_run = map (str_replace ''migrate_'' []) ?attrs"
    by blast
  have s: "sorted ?attrs" by (simp add: py_dir_def sorted_wrt_filter)
  have d: "distinct ?attrs" by (simp add: py_dir_def)
  have m: "set ?attrs = {a \<in> fst ` set data_migrators. startswith a ''migrate_''}"
    by (auto simp: py_dir_def)
  from assms t(1) have "to_run_for data_migrators cogs = Inr to_run"
    by (simp add: to_run_for_def)
  with t s d m show ?thesis by blast
qed

text \<open>
  The theorem for a module that declares \<open>migrate_b\<close> before \<open>migrate_a\<close>.
\<close>

theorem all_expands_in_name_order_witness:
  "''all'' \<in> set [''all''] \<and>
   (\<exists>to_run attrs.
      to_run_for ba_module [''all''] = Inr to_run \<and>
      map (\<lambda>u. Some (fst u)) to_run = map (py_getattr ba_module) attrs \<and>
      map snd to_run = map (str_replace ''migrate_'' []) attrs \<and>
      sorted attrs \<and> distinct attrs \<and>
      set attrs = {a \<in> fst ` set ba_module. startswith a ''migrate_''})"
  using all_expands_in_name_order [of "[''all'']" ba_module] by simp

text \<open>
  Claim C7 as first stated fails: for the module that declares \<open>migrate_b\<close> and then
  \<open>migrate_a\<close>, the request \<open>all\<close> resolves to \<open>a\<close>, \<open>b\<close>, not to the order of declaration.
\<close>

theorem declaration_order_counterexample:
  "map fst ba_module = [''migrate_b'', ''migrate_a''] \<and>
   map_sum id (map snd) (to_run_for ba_module [''all'']) = Inr [''a'', ''b'']"
  by code_simp

end
